theory Spec2Isabelle
  imports Complex_Main "HOL-Library.Char_ord" "HOL-Library.List_Lexorder"
begin

unbundle bit_operations_syntax

section \<open>Python values used by rtconf\<close>

text \<open>
  Python integers are unbounded and are modelled by \<^typ>\<open>int\<close>; strings are ASCII
  \<^typ>\<open>string\<close>s. Every exception the modelled code can raise is a value of \<open>error\<close>;
  a function that may raise returns \<open>error + 'a\<close> with \<open>Inl\<close> for the exception.
  \<open>KernelError\<close> stands for any other exception coming out of an external call.
\<close>

datatype error =
    AssertionError | ValueError | IndexError | KeyError | RuntimeError
  | PermissionError | FileNotFoundError | ProcessLookupError | OSError
  | ProcfsWriteError | KernelError

text \<open>\<open>except OSError\<close> also catches the subclasses of \<open>OSError\<close>.\<close>

fun is_OSError :: "error \<Rightarrow> bool" where
  "is_OSError PermissionError = True"
| "is_OSError FileNotFoundError = True"
| "is_OSError ProcessLookupError = True"
| "is_OSError OSError = True"
| "is_OSError _ = False"

definition bnd :: "error + 'a \<Rightarrow> ('a \<Rightarrow> error + 'b) \<Rightarrow> error + 'b" where
  "bnd m f = (case m of Inl e \<Rightarrow> Inl e | Inr x \<Rightarrow> f x)"

fun mapE :: "('a \<Rightarrow> error + 'b) \<Rightarrow> 'a list \<Rightarrow> error + 'b list" where
  "mapE f [] = Inr []"
| "mapE f (x # xs) = bnd (f x) (\<lambda>y. bnd (mapE f xs) (\<lambda>ys. Inr (y # ys)))"

subsection \<open>\<open>str(int)\<close> and \<open>int(str, base)\<close>\<close>

function str_digits :: "int \<Rightarrow> string" where
  "str_digits n =
     (if n < 10 then [char_of (48 + n)]
      else str_digits (n div 10) @ [char_of (48 + n mod 10)])"
  by pat_completeness auto
termination
  by (relation "measure nat") auto

declare str_digits.simps [simp del]

definition py_str :: "int \<Rightarrow> string" where
  "py_str i = (if i < 0 then CHR ''-'' # str_digits (- i) else str_digits i)"

text \<open>ASCII white space as \<open>str.isspace\<close> sees it: 9 to 13, 28 to 31 and the blank.\<close>

definition isspace :: "char \<Rightarrow> bool" where
  "isspace c = (let n = of_char c :: int in (9 \<le> n \<and> n \<le> 13) \<or> (28 \<le> n \<and> n \<le> 31) \<or> n = 32)"

definition py_strip :: "string \<Rightarrow> string" where
  "py_strip s = rev (dropWhile isspace (rev (dropWhile isspace s)))"

text \<open>
  \<open>int()\<close> skips only the white space of C around the number: 9 to 13 and the blank.
  The separators 28 to 31 are white space for \<open>str.strip\<close> and \<open>str.split\<close>, not for
  \<open>int()\<close>, which raises \<open>ValueError\<close> on them.
\<close>

definition int_space :: "char \<Rightarrow> bool" where
  "int_space c = (let n = of_char c :: int in (9 \<le> n \<and> n \<le> 13) \<or> n = 32)"

definition digit_val :: "char \<Rightarrow> int option" where
  "digit_val c =
     (let n = of_char c :: int in
      if 48 \<le> n \<and> n \<le> 57 then Some (n - 48)
      else if 97 \<le> n \<and> n \<le> 122 then Some (n - 87)
      else if 65 \<le> n \<and> n \<le> 90 then Some (n - 55)
      else None)"

definition is_digit :: "int \<Rightarrow> char \<Rightarrow> bool" where
  "is_digit base c = (case digit_val c of None \<Rightarrow> False | Some d \<Rightarrow> d < base)"

definition digits_value :: "int \<Rightarrow> string \<Rightarrow> int" where
  "digits_value base ds = foldl (\<lambda>acc c. acc * base + the (digit_val c)) 0 ds"

fun split_on :: "char \<Rightarrow> string \<Rightarrow> string list" where
  "split_on sep [] = [[]]"
| "split_on sep (c # cs) =
     (if c = sep then [] # split_on sep cs
      else (case split_on sep cs of [] \<Rightarrow> [[c]] | t # ts \<Rightarrow> (c # t) # ts))"

text \<open>
  \<open>int(s, base)\<close> for base 10 and 16: surrounding C white space is skipped, one sign is
  allowed, base 16 allows the prefix \<open>0x\<close>, and single underscores may separate digits
  (also directly after the prefix). Anything else raises \<open>ValueError\<close>.
\<close>

definition py_int_base :: "int \<Rightarrow> string \<Rightarrow> error + int" where
  "py_int_base base s =
     (let t = rev (dropWhile int_space (rev (dropWhile int_space s)));
          neg = (t \<noteq> [] \<and> hd t = CHR ''-'');
          u = (if t \<noteq> [] \<and> (hd t = CHR ''-'' \<or> hd t = CHR ''+'') then tl t else t);
          pre = (base = 16 \<and> (take 2 u = ''0x'' \<or> take 2 u = ''0X''));
          v = (if pre then (if take 1 (drop 2 u) = ''_'' then drop 3 u else drop 2 u) else u);
          groups = split_on CHR ''_'' v
      in if (\<forall>g \<in> set groups. g \<noteq> [] \<and> (\<forall>c \<in> set g. is_digit base c))
         then Inr ((if neg then - 1 else 1) * digits_value base (concat groups))
         else Inl ValueError)"

definition py_int :: "string \<Rightarrow> error + int" where
  "py_int s = py_int_base 10 s"

section \<open>tools.py: CPU-set codecs\<close>

text \<open>
  \<^verbatim>\<open>range_to_list\<close>: a token with a dash must split into exactly two integers
  (unpacking anything else raises \<open>ValueError\<close>), with \<open>l <= h\<close> asserted.
\<close>

definition range_token :: "string \<Rightarrow> error + int list" where
  "range_token token =
     (if CHR ''-'' \<in> set token then
        bnd (mapE py_int (split_on CHR ''-'' token)) (\<lambda>lh.
          case lh of
            [l, h] \<Rightarrow> if l \<le> h then Inr [l..h] else Inl AssertionError
          | _ \<Rightarrow> Inl ValueError)
      else bnd (py_int token) (\<lambda>i. Inr [i]))"

definition range_to_list :: "string \<Rightarrow> error + int list" where
  "range_to_list range_str =
     (if length range_str = 0 then Inr []
      else bnd (mapE range_token (split_on CHR '','' range_str)) (\<lambda>ls. Inr (concat ls)))"

text \<open>
  \<^verbatim>\<open>list_to_range_notation\<close>: the loop over \<open>cpu_list + [-1]\<close> with its two variables
  \<open>pending\<close> and \<open>s\<close>. The function sorts its argument in place before the loop; a
  caller whose list is still used afterwards continues with \<open>sort cpu_list\<close>.
\<close>

fun lrn_loop :: "int list \<Rightarrow> int list \<Rightarrow> string \<Rightarrow> int list \<times> string" where
  "lrn_loop [] pending s = (pending, s)"
| "lrn_loop (c # cs) pending s =
     (if length pending = 0 then lrn_loop cs [c] s
      else if c = last pending + 1 then lrn_loop cs (pending @ [c]) s
      else if length pending = 1 then lrn_loop cs [c] (s @ '','' @ py_str (hd pending))
      else lrn_loop cs [c] (s @ '','' @ py_str (hd pending) @ ''-'' @ py_str (last pending)))"

definition list_to_range_notation :: "int list \<Rightarrow> error + string" where
  "list_to_range_notation cpu_list =
     (case lrn_loop (sort cpu_list @ [- 1]) [] [] of
        (pending, s) \<Rightarrow> if pending = [- 1] then Inr (drop 1 s) else Inl AssertionError)"

text \<open>\<^verbatim>\<open>maskstr_to_int\<close>: the commas of a chunked hexadecimal mask are removed.\<close>

definition maskstr_to_int :: "string \<Rightarrow> error + int" where
  "maskstr_to_int maskstr = py_int_base 16 (filter (\<lambda>c. c \<noteq> CHR '','') maskstr)"

function mtl_loop :: "int \<Rightarrow> int \<Rightarrow> int list \<Rightarrow> int list" where
  "mtl_loop msk cc int_list =
     (if msk > 0
      then mtl_loop (drop_bit 1 msk) (cc + 1)
             (if msk AND 1 \<noteq> 0 then int_list @ [cc] else int_list)
      else int_list)"
  by pat_completeness auto
termination
  by (relation "measure (\<lambda>(msk, cc, int_list). nat msk)") (auto simp: drop_bit_eq_div)

declare mtl_loop.simps [simp del]

definition mask_to_list :: "int \<Rightarrow> error + int list" where
  "mask_to_list msk = (if msk \<ge> 0 then Inr (mtl_loop msk 0 []) else Inl AssertionError)"

text \<open>\<^verbatim>\<open>list_to_mask\<close>: \<open>1 << cc\<close> raises \<open>ValueError\<close> for a negative shift count.\<close>

fun ltm_loop :: "int list \<Rightarrow> int \<Rightarrow> error + int" where
  "ltm_loop [] msk = Inr msk"
| "ltm_loop (cc # cs) msk =
     (if cc < 0 then Inl ValueError else ltm_loop cs (msk OR push_bit (nat cc) 1))"

definition list_to_mask :: "int list \<Rightarrow> error + int" where
  "list_to_mask cpu_list = ltm_loop cpu_list 0"


subsection \<open>Other string and list primitives of Python\<close>

definition py_rstrip :: "string \<Rightarrow> string" where
  "py_rstrip s = rev (dropWhile isspace (rev s))"

text \<open>
  \<open>s.split(None, maxsplit)\<close>: runs of white space separate the parts, and after
  \<open>maxsplit\<close> splits the rest of the line (leading white space skipped) is the last part.
  \<open>s.split()\<close> is the same with no limit; \<open>length s\<close> splits are never reached.
\<close>

fun split_ws :: "nat \<Rightarrow> string \<Rightarrow> string list" where
  "split_ws 0 s = (let r = dropWhile isspace s in if r = [] then [] else [r])"
| "split_ws (Suc n) s =
     (let r = dropWhile isspace s in
      if r = [] then []
      else takeWhile (\<lambda>c. \<not> isspace c) r # split_ws n (dropWhile (\<lambda>c. \<not> isspace c) r))"

definition py_split :: "string \<Rightarrow> string list" where
  "py_split s = split_ws (length s) s"

text \<open>\<open>xs[i]\<close>: a negative index counts from the end, out of range raises \<open>IndexError\<close>.\<close>

definition py_nth :: "'a list \<Rightarrow> int \<Rightarrow> error + 'a" where
  "py_nth xs i =
     (if 0 \<le> i \<and> i < int (length xs) then Inr (xs ! nat i)
      else if i < 0 \<and> - int (length xs) \<le> i then Inr (xs ! nat (int (length xs) + i))
      else Inl IndexError)"

text \<open>A \<open>dict\<close> built by successive assignments: the last assignment of a key wins.\<close>

definition dict_get :: "('a \<times> 'b) list \<Rightarrow> 'a \<Rightarrow> error + 'b" where
  "dict_get d k = (case map_of (rev d) k of None \<Rightarrow> Inl KeyError | Some v \<Rightarrow> Inr v)"

subsection \<open>numpy arrays of counts and rates\<close>

text \<open>
  Counts are \<open>int64\<close> arrays; the kernel's counters are far below \<open>2^63\<close> and the
  model uses \<^typ>\<open>int\<close>. Rates are \<open>float64\<close>; the model computes the quotient in
  \<^typ>\<open>real\<close>, without rounding, and keeps numpy's results of a division by zero
  (\<open>inf\<close>, \<open>-inf\<close>, \<open>nan\<close>, which numpy returns with a warning, not an exception).
\<close>

datatype rate = Rate real | PosInf | NegInf | NaN

definition np_sub :: "int list \<Rightarrow> int list \<Rightarrow> error + int list" where
  "np_sub xs ys =
     (if length xs = length ys then Inr (map2 (-) xs ys)
      else if length ys = 1 then Inr (map (\<lambda>x. x - hd ys) xs)
      else if length xs = 1 then Inr (map (\<lambda>y. hd xs - y) ys)
      else Inl ValueError)"

definition np_div :: "int \<Rightarrow> real \<Rightarrow> rate" where
  "np_div x d =
     (if d = 0 then (if x > 0 then PosInf else if x < 0 then NegInf else NaN)
      else Rate (real_of_int x / d))"

section \<open>The entities: cset.py, pcidevices.py, irqs.py, kthread.py, meta\_obj.py\<close>

record CPUSpec =
  cs_name :: string
  cpu_list :: "int list"
  cpu_mask :: int
  mem_list :: "int list option"
  no_irqbalance :: bool

text \<open>
  \<^verbatim>\<open>CPUSpec.__init__\<close>: the three sources are keyword arguments defaulting to \<open>None\<close>;
  the assertion counts the ones left at \<open>None\<close>.
\<close>

definition CPUSpec_init ::
  "string \<Rightarrow> string option \<Rightarrow> int list option \<Rightarrow> int list option \<Rightarrow> int option \<Rightarrow> bool
     \<Rightarrow> error + CPUSpec" where
  "CPUSpec_init name str_spec cpu_list_arg mem_list_arg mask_arg no_irqbalance_arg =
     (if (if str_spec = None then 1 else 0) + (if cpu_list_arg = None then 1 else 0)
           + (if mask_arg = None then 1 else 0) \<noteq> (2 :: nat)
      then Inl AssertionError
      else
        bnd (case str_spec of
               Some s \<Rightarrow> range_to_list s
             | None \<Rightarrow>
                 (case mask_arg of
                    Some m \<Rightarrow> mask_to_list m
                  | None \<Rightarrow>
                      (case cpu_list_arg of Some l \<Rightarrow> Inr l | None \<Rightarrow> Inl AssertionError)))
          (\<lambda>l. bnd (list_to_mask (sort l))
            (\<lambda>m. Inr \<lparr>cs_name = name, cpu_list = sort l, cpu_mask = m,
                       mem_list = mem_list_arg, no_irqbalance = no_irqbalance_arg\<rparr>)))"

datatype IRQ_TYPE = NONE | LEGACY | MSI

record PCIDevice =
  pci_addr :: string
  irq_type :: IRQ_TYPE
  irq_list :: "int list"
  cpu_set :: "int set"
  numa_node :: int
  driver :: string
  net_iface :: string
  ip_addr :: string

text \<open>
  IRQ and KThread objects refer to each other, so both live in a store and a reference
  is an address (\<^typ>\<open>nat\<close>). A Python reference is never dangling: every address
  holds an object. PCIDevice objects are not changed once correlation starts and are
  kept by value. The underscore of a private attribute is dropped
  (\<open>_counts\<close> is \<open>counts\<close>, \<open>_count\<close> is \<open>irq_count\<close>, \<open>_alive\<close> is \<open>alive_flag\<close>).
\<close>

record IRQ =
  irq_id :: int
  procfs_folder :: string
  smp_affinity :: int
  smp_affinity_list :: "int list"
  eff_affinity :: int
  eff_affinity_list :: "int list"
  best_node :: int
  pci_device :: "PCIDevice option"
  kthread :: "nat option"
  irq_count :: int
  unhandled :: int
  last_unhandled_ms :: int
  counts :: "int list"
  counts_time :: real
  counts_hz :: "rate list"
  was_pinned_successfully_once :: bool

datatype KThreadTypeEnum =
    KWORKER | KSOFTIRQD | MIGRATION | IRQ_WORK | IDLE_INJECT | CPUHP | PR
  | NVIDIA_MODESET | JBD2 | IRQ_T | RCUB | RCUC | RCUOG | RCUOP | OTHER

datatype KSchedTypeEnum = FIFO | OTH | UNKNOWN

record KThread =
  pid :: int
  kt_name :: string
  alive_flag :: bool
  sched_cls :: KSchedTypeEnum
  kthread_type :: KThreadTypeEnum
  irq_number :: "int option"
  irq_obj :: "nat option"
  is_rcu :: bool
  rcuc_cpu :: "int option"
  was_cset_successfully_once :: bool
  comm :: string
  cpuset :: string
  sched_info :: "(string \<times> string) list"
  runtime :: real
  runtime_incr :: real
  migrations :: int
  migrations_incr :: int
  nr_sw :: int
  nr_sw_incr :: int
  nr_sw_vol :: int
  nr_sw_vol_incr :: int
  nr_sw_unvol :: int
  nr_sw_unvol_incr :: int
  dt_last_contents :: real
  time_last_contents :: real

record EDTObject =
  edt_irq :: nat
  edt_kthread :: nat
  edt_pci_device :: PCIDevice

section \<open>The machine the code runs on\<close>

text \<open>
  What the code asks of the operating system is a parameter of the model: the constants
  \<^verbatim>\<open>tools.py\<close> computes at import (\<open>CPU_COUNT\<close>, \<open>NUMA_CPULIST\<close>), the user id, the
  builtin \<open>float\<close>, and one operation per kind of system call over a kernel state
  \<open>'k\<close> of any type. Every operation returns the next kernel state, so a kernel may
  answer the same call differently each time. \<open>k_sched_getaffinity\<close> returns the
  affinity set in its iteration order.
\<close>

record 'k env =
  uid :: int
  CPU_COUNT :: nat
  NUMA_CPULIST :: "int set list"
  py_float :: "string \<Rightarrow> error + real"
  k_time :: "'k \<Rightarrow> real \<times> 'k"
  k_read :: "string \<Rightarrow> 'k \<Rightarrow> (error + string list) \<times> 'k"
  k_write :: "string \<Rightarrow> string \<Rightarrow> 'k \<Rightarrow> error option \<times> 'k"
  k_kill0 :: "int \<Rightarrow> 'k \<Rightarrow> error option \<times> 'k"
  k_sched_getaffinity :: "int \<Rightarrow> 'k \<Rightarrow> (error + int list) \<times> 'k"
  k_run :: "string list \<Rightarrow> 'k \<Rightarrow> (error + int) \<times> 'k"
  k_cset_proc :: "string list \<Rightarrow> 'k \<Rightarrow> error option \<times> 'k"

text \<open>
  The trace records, in order, what leaves the process: log records of level warning
  and above (named by the function that emits them and the fixed part of the message)
  and every kernel-facing write or tool call. Debug and info records are not traced,
  but the formatting of their arguments is modelled wherever it sorts a list in place
  or can raise.
\<close>

datatype level = WARNING | ERROR | CRITICAL

datatype event =
    LogRecord level string
  | ProcfsWrite string string
  | CsetProc "string list"
  | Run "string list"

record 'k world =
  irqs :: "nat \<Rightarrow> IRQ"
  kthreads :: "nat \<Rightarrow> KThread"
  kern :: 'k
  trace :: "event list"

type_synonym ('k, 'a) prog = "'k world \<Rightarrow> (error + 'a) \<times> 'k world"

definition ret :: "'a \<Rightarrow> ('k, 'a) prog" where
  "ret x w = (Inr x, w)"

definition raise :: "error \<Rightarrow> ('k, 'a) prog" where
  "raise e w = (Inl e, w)"

definition lift :: "error + 'a \<Rightarrow> ('k, 'a) prog" where
  "lift r w = (r, w)"

definition seq :: "('k, 'a) prog \<Rightarrow> ('a \<Rightarrow> ('k, 'b) prog) \<Rightarrow> ('k, 'b) prog" where
  "seq m f w = (case m w of (Inl e, w') \<Rightarrow> (Inl e, w') | (Inr x, w') \<Rightarrow> f x w')"

text \<open>\<open>try: m except OSError: h\<close>.\<close>

definition catch_OSError :: "('k, 'a) prog \<Rightarrow> ('k, 'a) prog \<Rightarrow> ('k, 'a) prog" where
  "catch_OSError m h w =
     (case m w of
        (Inl e, w') \<Rightarrow> if is_OSError e then h w' else (Inl e, w')
      | (Inr x, w') \<Rightarrow> (Inr x, w'))"

definition emit :: "event \<Rightarrow> ('k, unit) prog" where
  "emit ev w = (Inr (), w\<lparr>trace := trace w @ [ev]\<rparr>)"

definition kcall :: "('k \<Rightarrow> 'r \<times> 'k) \<Rightarrow> ('k, 'r) prog" where
  "kcall op w = (case op (kern w) of (r, k') \<Rightarrow> (Inr r, w\<lparr>kern := k'\<rparr>))"

definition get_irq :: "nat \<Rightarrow> ('k, IRQ) prog" where
  "get_irq a w = (Inr (irqs w a), w)"

definition upd_irq :: "nat \<Rightarrow> (IRQ \<Rightarrow> IRQ) \<Rightarrow> ('k, unit) prog" where
  "upd_irq a f w = (Inr (), w\<lparr>irqs := (irqs w)(a := f (irqs w a))\<rparr>)"

definition get_kt :: "nat \<Rightarrow> ('k, KThread) prog" where
  "get_kt t w = (Inr (kthreads w t), w)"

definition upd_kt :: "nat \<Rightarrow> (KThread \<Rightarrow> KThread) \<Rightarrow> ('k, unit) prog" where
  "upd_kt t f w = (Inr (), w\<lparr>kthreads := (kthreads w)(t := f (kthreads w t))\<rparr>)"

text \<open>\<^verbatim>\<open>root_decorator\<close>.\<close>

definition root_decorator :: "'k env \<Rightarrow> ('k, 'a) prog \<Rightarrow> ('k, 'a) prog" where
  "root_decorator E func = (if uid E \<noteq> 0 then raise PermissionError else func)"

text \<open>
  \<^verbatim>\<open>tools.procfs_write\<close>: \<open>f.write\<close> returns the number of characters written, which
  is the length of \<open>content\<close>.
\<close>

definition tl_procfs_write :: "'k env \<Rightarrow> string \<Rightarrow> string \<Rightarrow> ('k, unit) prog" where
  "tl_procfs_write E file content =
     root_decorator E
       (seq (emit (ProcfsWrite file content)) (\<lambda>_.
        seq (kcall (k_write E file content)) (\<lambda>r.
          case r of
            Some e \<Rightarrow> raise e
          | None \<Rightarrow> if int (length content) \<le> 0 then raise ProcfsWriteError else ret ())))"

definition tl_procfs_read :: "'k env \<Rightarrow> string \<Rightarrow> ('k, string list) prog" where
  "tl_procfs_read E file =
     seq (kcall (k_read E file)) (\<lambda>r. lift (bnd r (\<lambda>content. Inr (map py_rstrip content))))"

text \<open>\<^verbatim>\<open>tools.cset_proc_call\<close>: \<open>sys.argv = ['cset proc'] + cmd_args.split(' ')\<close>.\<close>

definition cset_proc_call :: "'k env \<Rightarrow> string \<Rightarrow> ('k, unit) prog" where
  "cset_proc_call E cmd_args =
     root_decorator E
       (let argv = ''cset proc'' # split_on CHR '' '' cmd_args in
        seq (emit (CsetProc argv)) (\<lambda>_.
        seq (kcall (k_cset_proc E argv)) (\<lambda>r.
          case r of Some e \<Rightarrow> raise e | None \<Rightarrow> ret ())))"


section \<open>irqs.py\<close>

definition IRQ_procfs_read :: "'k env \<Rightarrow> nat \<Rightarrow> string \<Rightarrow> ('k, string list) prog" where
  "IRQ_procfs_read E a file =
     seq (get_irq a) (\<lambda>self. tl_procfs_read E (procfs_folder self @ ''/'' @ file))"

definition IRQ_procfs_write :: "'k env \<Rightarrow> nat \<Rightarrow> string \<Rightarrow> string \<Rightarrow> ('k, unit) prog" where
  "IRQ_procfs_write E a file content =
     root_decorator E
       (seq (get_irq a) (\<lambda>self. tl_procfs_write E (procfs_folder self @ ''/'' @ file) content))"

text \<open>\<open>int(spurious[n].split()[1])\<close>.\<close>

definition spurious_field :: "string list \<Rightarrow> int \<Rightarrow> error + int" where
  "spurious_field spurious n =
     bnd (py_nth spurious n) (\<lambda>line. bnd (py_nth (py_split line) 1) py_int)"

text \<open>
  \<^verbatim>\<open>IRQ.refresh_contents\<close>: each attribute is assigned as soon as its value is computed,
  so an exception leaves the earlier assignments in place.
\<close>

definition IRQ_refresh_contents :: "'k env \<Rightarrow> nat \<Rightarrow> ('k, unit) prog" where
  "IRQ_refresh_contents E a =
     seq (IRQ_procfs_read E a ''smp_affinity'') (\<lambda>r.
     seq (lift (bnd (py_nth r 0) maskstr_to_int)) (\<lambda>m.
     seq (upd_irq a (\<lambda>self. self\<lparr>smp_affinity := m\<rparr>)) (\<lambda>_.
     seq (lift (mask_to_list m)) (\<lambda>l.
     seq (upd_irq a (\<lambda>self. self\<lparr>smp_affinity_list := l\<rparr>)) (\<lambda>_.
     seq (IRQ_procfs_read E a ''effective_affinity'') (\<lambda>r.
     seq (lift (bnd (py_nth r 0) maskstr_to_int)) (\<lambda>m.
     seq (upd_irq a (\<lambda>self. self\<lparr>eff_affinity := m\<rparr>)) (\<lambda>_.
     seq (lift (mask_to_list m)) (\<lambda>l.
     seq (upd_irq a (\<lambda>self. self\<lparr>eff_affinity_list := l\<rparr>)) (\<lambda>_.
     seq (IRQ_procfs_read E a ''spurious'') (\<lambda>spurious.
     seq (lift (spurious_field spurious 0)) (\<lambda>c.
     seq (upd_irq a (\<lambda>self. self\<lparr>irq_count := c\<rparr>)) (\<lambda>_.
     seq (lift (spurious_field spurious 1)) (\<lambda>u.
     seq (upd_irq a (\<lambda>self. self\<lparr>unhandled := u\<rparr>)) (\<lambda>_.
     seq (lift (spurious_field spurious 2)) (\<lambda>t.
     upd_irq a (\<lambda>self. self\<lparr>last_unhandled_ms := t\<rparr>)))))))))))))))))"

text \<open>\<^verbatim>\<open>IRQ.__init__\<close> builds the object at address \<open>a\<close>.\<close>

definition IRQ_init :: "'k env \<Rightarrow> nat \<Rightarrow> int \<Rightarrow> ('k, unit) prog" where
  "IRQ_init E a id_arg =
     seq (upd_irq a (\<lambda>_.
            \<lparr>irq_id = id_arg, procfs_folder = ''/proc/irq/'' @ py_str id_arg,
             smp_affinity = 0, smp_affinity_list = [],
             eff_affinity = 0, eff_affinity_list = [],
             best_node = - 2, pci_device = None, kthread = None,
             irq_count = 0, unhandled = 0, last_unhandled_ms = 0,
             counts = replicate (CPU_COUNT E) 0, counts_time = 0,
             counts_hz = replicate (CPU_COUNT E) (Rate 0),
             was_pinned_successfully_once = False\<rparr>)) (\<lambda>_.
     IRQ_refresh_contents E a)"

text \<open>
  \<^verbatim>\<open>IRQ.__repr__\<close>, called when a log message formats the object: it formats both
  affinity lists with \<open>list_to_range_notation\<close>, which sorts them in place.
\<close>

definition IRQ_repr :: "nat \<Rightarrow> ('k, unit) prog" where
  "IRQ_repr a =
     seq (upd_irq a (\<lambda>self. self\<lparr>smp_affinity_list := sort (smp_affinity_list self)\<rparr>)) (\<lambda>_.
     seq (get_irq a) (\<lambda>self.
     seq (lift (list_to_range_notation (smp_affinity_list self))) (\<lambda>_.
     seq (upd_irq a (\<lambda>self. self\<lparr>eff_affinity_list := sort (eff_affinity_list self)\<rparr>)) (\<lambda>_.
     seq (get_irq a) (\<lambda>self.
     seq (lift (list_to_range_notation (eff_affinity_list self))) (\<lambda>_. ret ()))))))"

definition update_counts :: "'k env \<Rightarrow> nat \<Rightarrow> real \<Rightarrow> int list \<Rightarrow> ('k, unit) prog" where
  "update_counts E a time_now counts_arg =
     (if length counts_arg \<noteq> CPU_COUNT E then raise AssertionError
      else
        seq (get_irq a) (\<lambda>self.
        seq (lift (np_sub counts_arg (counts self))) (\<lambda>diff.
        upd_irq a (\<lambda>self.
          self\<lparr>counts_hz := map (\<lambda>x. np_div x (time_now - counts_time self)) diff,
               counts_time := time_now,
               counts := counts_arg\<rparr>))))"

definition register_pci_device :: "nat \<Rightarrow> PCIDevice \<Rightarrow> ('k, unit) prog" where
  "register_pci_device a dev =
     seq (IRQ_repr a) (\<lambda>_.
     upd_irq a (\<lambda>self. self\<lparr>pci_device := Some dev, best_node := numa_node dev\<rparr>))"

definition register_kthread :: "nat \<Rightarrow> nat \<Rightarrow> ('k, unit) prog" where
  "register_kthread a kt =
     seq (IRQ_repr a) (\<lambda>_. upd_irq a (\<lambda>self. self\<lparr>kthread := Some kt\<rparr>))"

text \<open>
  \<^verbatim>\<open>IRQ.get_pin_to_cpu\<close> returns the object's own list, after the log line has
  formatted (and sorted) it.
\<close>

definition get_pin_to_cpu :: "'k env \<Rightarrow> nat \<Rightarrow> ('k, int list) prog" where
  "get_pin_to_cpu E a =
     seq (IRQ_refresh_contents E a) (\<lambda>_.
     seq (upd_irq a (\<lambda>self. self\<lparr>smp_affinity_list := sort (smp_affinity_list self)\<rparr>)) (\<lambda>_.
     seq (get_irq a) (\<lambda>self.
     seq (lift (list_to_range_notation (smp_affinity_list self))) (\<lambda>_.
     ret (smp_affinity_list self)))))"

text \<open>
  \<^verbatim>\<open>IRQ.set_pin_to_cpu\<close>, in the three steps of its body. The first log line formats
  \<open>cpu_list\<close>, so the list is sorted before anything else and \<open>cpu_list\<close> below is the
  caller's list after that sort. \<open>pin_target\<close> is the choice of \<open>cpu_list_effective\<close>.
\<close>

definition pin_target :: "'k env \<Rightarrow> IRQ \<Rightarrow> int list \<Rightarrow> bool \<Rightarrow> ('k, int list) prog" where
  "pin_target E self cpu_list_arg numaify_subset_ok =
     (if best_node self \<ge> 0 then
        seq (lift (py_nth (NUMA_CPULIST E) (best_node self))) (\<lambda>node.
          if \<not> (set cpu_list_arg \<subseteq> node) then
            (if numaify_subset_ok then ret (filter (\<lambda>c. c \<in> node) cpu_list_arg)
             else
               seq (lift (list_to_range_notation cpu_list_arg)) (\<lambda>_.
               seq (emit (LogRecord ERROR ''IRQ::set_pin_to_cpu: pinning not on NUMA node'')) (\<lambda>_.
               ret cpu_list_arg)))
          else ret cpu_list_arg)
      else ret cpu_list_arg)"

definition pin_write :: "'k env \<Rightarrow> nat \<Rightarrow> int list \<Rightarrow> int list \<Rightarrow> ('k, unit) prog" where
  "pin_write E a cpu_list_arg cpu_list_effective =
     catch_OSError
       (seq (lift (list_to_range_notation cpu_list_effective)) (\<lambda>content.
        IRQ_procfs_write E a ''smp_affinity_list'' content))
       (seq (upd_irq a (\<lambda>self. self\<lparr>smp_affinity_list := sort (smp_affinity_list self)\<rparr>)) (\<lambda>_.
        seq (get_irq a) (\<lambda>self.
        seq (lift (list_to_range_notation (smp_affinity_list self))) (\<lambda>_.
        seq (lift (list_to_range_notation cpu_list_arg)) (\<lambda>_. ret ())))))"

definition pin_verify :: "'k env \<Rightarrow> nat \<Rightarrow> int list \<Rightarrow> ('k, int list) prog" where
  "pin_verify E a cpu_list_effective =
     seq (get_pin_to_cpu E a) (\<lambda>pinned.
     seq (if set pinned = set cpu_list_effective
          then upd_irq a (\<lambda>self. self\<lparr>was_pinned_successfully_once := True\<rparr>)
          else ret ()) (\<lambda>_.
     ret pinned))"

definition set_pin_to_cpu :: "'k env \<Rightarrow> nat \<Rightarrow> int list \<Rightarrow> bool \<Rightarrow> ('k, int list) prog" where
  "set_pin_to_cpu E a cpu_list_arg numaify_subset_ok =
     root_decorator E
       (seq (lift (list_to_range_notation cpu_list_arg)) (\<lambda>_.
        if \<not> length (sort cpu_list_arg) > 0 then raise AssertionError
        else
          seq (get_irq a) (\<lambda>self.
          seq (pin_target E self (sort cpu_list_arg) numaify_subset_ok) (\<lambda>cpu_list_effective.
          seq (pin_write E a (sort cpu_list_arg) cpu_list_effective) (\<lambda>_.
          pin_verify E a cpu_list_effective)))))"

section \<open>kthread.py\<close>

definition KThread_procfs_read :: "'k env \<Rightarrow> nat \<Rightarrow> string \<Rightarrow> ('k, string list) prog" where
  "KThread_procfs_read E t file =
     seq (get_kt t) (\<lambda>self. tl_procfs_read E (''/proc/'' @ py_str (pid self) @ ''/'' @ file))"

text \<open>\<^verbatim>\<open>KThread.alive\<close>: the \<open>except\<close> clauses in the order of the source.\<close>

definition alive :: "'k env \<Rightarrow> nat \<Rightarrow> ('k, bool) prog" where
  "alive E t =
     seq (get_kt t) (\<lambda>self.
       if \<not> alive_flag self then ret False
       else
         seq (kcall (k_kill0 E (pid self))) (\<lambda>r.
           case r of
             None \<Rightarrow> ret True
           | Some e \<Rightarrow>
               if e = PermissionError then ret True
               else if e = ProcessLookupError then
                 seq (emit (LogRecord WARNING ''KTread::alive: pid has terminated'')) (\<lambda>_.
                 seq (upd_kt t (\<lambda>self. self\<lparr>alive_flag := False\<rparr>)) (\<lambda>_.
                 ret False))
               else raise e))"

text \<open>
  \<^verbatim>\<open>KThread.refresh_contents\<close>. A line of \<open>sched\<close> that is kept contains a colon, so
  its split has at least two parts.
\<close>

definition sched_int :: "(string \<times> string) list \<Rightarrow> string \<Rightarrow> error + int" where
  "sched_int info key = bnd (dict_get info key) py_int"

definition KThread_refresh_contents :: "'k env \<Rightarrow> nat \<Rightarrow> ('k, unit) prog" where
  "KThread_refresh_contents E t =
     seq (KThread_procfs_read E t ''comm'') (\<lambda>r.
     seq (lift (py_nth r 0)) (\<lambda>c.
     seq (upd_kt t (\<lambda>self. self\<lparr>comm := c\<rparr>)) (\<lambda>_.
     seq (KThread_procfs_read E t ''cpuset'') (\<lambda>r.
     seq (lift (py_nth r 0)) (\<lambda>c.
     seq (upd_kt t (\<lambda>self. self\<lparr>cpuset := drop 1 c\<rparr>)) (\<lambda>_.
     seq (KThread_procfs_read E t ''sched'') (\<lambda>r.
     let sched_info_lines = map (split_on CHR '':'') (filter (\<lambda>l. CHR '':'' \<in> set l) (drop 2 r));
         info = map (\<lambda>l. (py_strip (l ! 0), py_strip (l ! 1))) sched_info_lines
     in
     seq (upd_kt t (\<lambda>self. self\<lparr>sched_info := info\<rparr>)) (\<lambda>_.
     seq (lift (bnd (dict_get info ''se.sum_exec_runtime'') (py_float E))) (\<lambda>x.
     seq (upd_kt t (\<lambda>self. self\<lparr>runtime_incr := x - runtime self, runtime := x\<rparr>)) (\<lambda>_.
     seq (lift (sched_int info ''se.nr_migrations'')) (\<lambda>x.
     seq (upd_kt t (\<lambda>self. self\<lparr>migrations_incr := x - migrations self, migrations := x\<rparr>)) (\<lambda>_.
     seq (lift (sched_int info ''nr_switches'')) (\<lambda>x.
     seq (upd_kt t (\<lambda>self. self\<lparr>nr_sw_incr := x - nr_sw self, nr_sw := x\<rparr>)) (\<lambda>_.
     seq (lift (sched_int info ''nr_voluntary_switches'')) (\<lambda>x.
     seq (upd_kt t (\<lambda>self. self\<lparr>nr_sw_vol_incr := x - nr_sw_vol self, nr_sw_vol := x\<rparr>)) (\<lambda>_.
     seq (lift (sched_int info ''nr_involuntary_switches'')) (\<lambda>x.
     seq (upd_kt t (\<lambda>self. self\<lparr>nr_sw_unvol_incr := x - nr_sw_unvol self, nr_sw_unvol := x\<rparr>)) (\<lambda>_.
     seq (kcall (k_time E)) (\<lambda>time_now.
     upd_kt t (\<lambda>self.
       self\<lparr>dt_last_contents := time_now - dt_last_contents self,
            time_last_contents := time_now\<rparr>))))))))))))))))))))"

text \<open>
  \<^verbatim>\<open>KThread.__init__\<close> builds the object at address \<open>t\<close>. The two enumerations map an
  unknown value to their catch-all member, with a warning.
\<close>

definition KSchedTypeEnum_of :: "string \<Rightarrow> KSchedTypeEnum option" where
  "KSchedTypeEnum_of v =
     map_of [(''FF'', FIFO), (''TS'', OTH), (''UNKNOWN'', UNKNOWN)] v"

definition KThreadTypeEnum_of :: "string \<Rightarrow> KThreadTypeEnum option" where
  "KThreadTypeEnum_of v =
     map_of [(''kworker'', KWORKER), (''ksoftirqd'', KSOFTIRQD), (''migration'', MIGRATION),
             (''irq_work'', IRQ_WORK), (''idle_inject'', IDLE_INJECT), (''cpuhp'', CPUHP),
             (''pr'', PR), (''nvidia-modeset'', NVIDIA_MODESET), (''jbd2'', JBD2),
             (''irq'', IRQ_T), (''rcub'', RCUB), (''rcuc'', RCUC), (''rcuog'', RCUOG),
             (''rcuop'', RCUOP), (''other'', OTHER)] v"

definition KThread_init :: "'k env \<Rightarrow> nat \<Rightarrow> int \<Rightarrow> string \<Rightarrow> string \<Rightarrow> ('k, unit) prog" where
  "KThread_init E t pid_arg name sched_cls_arg =
     seq (upd_kt t (\<lambda>self. self\<lparr>pid := pid_arg, kt_name := name, alive_flag := True\<rparr>)) (\<lambda>_.
     seq (alive E t) (\<lambda>_.
     seq (case KSchedTypeEnum_of sched_cls_arg of
            Some c \<Rightarrow> ret c
          | None \<Rightarrow> seq (emit (LogRecord WARNING ''KSchedTypeEnum::_missing_'')) (\<lambda>_. ret UNKNOWN)) (\<lambda>cls.
     let slashsplit = split_on CHR ''/'' (butlast (tl name)) in
     seq (if CHR ''/'' \<in> set name then
            (case KThreadTypeEnum_of (hd slashsplit) of
               Some ty \<Rightarrow> ret ty
             | None \<Rightarrow>
                 seq (emit (LogRecord WARNING ''KThreadTypeEnum::_missing_'')) (\<lambda>_. ret OTHER))
          else ret OTHER) (\<lambda>ty.
     seq (upd_kt t (\<lambda>self.
            self\<lparr>sched_cls := cls, kthread_type := ty, irq_number := None, irq_obj := None,
                 is_rcu := False, rcuc_cpu := None\<rparr>)) (\<lambda>_.
     seq (if ty = IRQ_T then
            (if \<not> length slashsplit > 1 then raise AssertionError
             else
               seq (lift (bnd (py_nth slashsplit 1) (\<lambda>x. py_int (hd (split_on CHR ''-'' x))))) (\<lambda>n.
               upd_kt t (\<lambda>self. self\<lparr>irq_number := Some n\<rparr>)))
          else if ty \<in> {RCUC, RCUOG, RCUB, RCUOP} then
            (if \<not> length slashsplit > 1 then raise AssertionError
             else
               seq (upd_kt t (\<lambda>self. self\<lparr>is_rcu := True\<rparr>)) (\<lambda>_.
               seq (lift (bnd (py_nth slashsplit 1) py_int)) (\<lambda>n.
               upd_kt t (\<lambda>self. self\<lparr>rcuc_cpu := Some n\<rparr>))))
          else ret ()) (\<lambda>_.
     seq (upd_kt t (\<lambda>self.
            self\<lparr>was_cset_successfully_once := False,
                 runtime := 0, runtime_incr := 0, migrations := 0, migrations_incr := 0,
                 nr_sw := 0, nr_sw_incr := 0, nr_sw_vol := 0, nr_sw_vol_incr := 0,
                 nr_sw_unvol := 0, nr_sw_unvol_incr := 0,
                 dt_last_contents := 0, time_last_contents := 0\<rparr>)) (\<lambda>_.
     KThread_refresh_contents E t)))))))"

definition register_interrupt :: "nat \<Rightarrow> nat \<Rightarrow> ('k, unit) prog" where
  "register_interrupt t irq = upd_kt t (\<lambda>self. self\<lparr>irq_obj := Some irq\<rparr>)"

text \<open>
  \<^verbatim>\<open>KThread.get_taskset\<close>: only \<open>ProcessLookupError\<close> is caught. The log line formats a
  fresh copy of the affinity list.
\<close>

definition get_taskset :: "'k env \<Rightarrow> nat \<Rightarrow> ('k, CPUSpec) prog" where
  "get_taskset E t =
     seq (get_kt t) (\<lambda>self.
     seq (kcall (k_sched_getaffinity E (pid self))) (\<lambda>r.
     seq (case r of
            Inr affinity \<Rightarrow> ret affinity
          | Inl e \<Rightarrow>
              if e = ProcessLookupError
              then seq (upd_kt t (\<lambda>self. self\<lparr>alive_flag := False\<rparr>)) (\<lambda>_. ret [])
              else raise e) (\<lambda>affinity.
     seq (lift (list_to_range_notation affinity)) (\<lambda>_.
     lift (CPUSpec_init (''kt_anon@'' @ py_str (pid self)) None (Some affinity) None None False)))))"

definition pin_taskset :: "'k env \<Rightarrow> nat \<Rightarrow> CPUSpec \<Rightarrow> ('k, unit) prog" where
  "pin_taskset E t taskset =
     root_decorator E
       (seq (get_kt t) (\<lambda>self.
        seq (lift (list_to_range_notation (cpu_list taskset))) (\<lambda>_.
        seq (lift (list_to_range_notation (cpu_list taskset))) (\<lambda>s.
        let cmd = ''taskset -pc '' @ s @ '' '' @ py_str (pid self) in
        seq (emit (Run (py_split cmd))) (\<lambda>_.
        seq (kcall (k_run E (py_split cmd))) (\<lambda>p.
        seq (lift p) (\<lambda>returncode.
          if returncode \<noteq> 0
          then emit (LogRecord WARNING ''KThread::pin_taskset failed'')
          else ret ())))))))"

definition pin_cset :: "'k env \<Rightarrow> nat \<Rightarrow> CPUSpec \<Rightarrow> ('k, unit) prog" where
  "pin_cset E t cpuset_arg =
     root_decorator E
       (seq (get_kt t) (\<lambda>self.
        seq (lift (list_to_range_notation (cpu_list cpuset_arg))) (\<lambda>_.
        let cpuset_arg = cpuset_arg\<lparr>cpu_list := sort (cpu_list cpuset_arg)\<rparr> in
        seq (cset_proc_call E (''-k -m --force '' @ py_str (pid self) @ '' root'')) (\<lambda>_.
        seq (pin_taskset E t cpuset_arg) (\<lambda>_.
        seq (cset_proc_call E
               (''-k -m --force '' @ py_str (pid self) @ '' '' @ cs_name cpuset_arg)) (\<lambda>_.
        seq (KThread_refresh_contents E t) (\<lambda>_.
        seq (get_taskset E t) (\<lambda>now_cpuset.
          if set (cpu_list now_cpuset) \<noteq> set (cpu_list cpuset_arg) then
            seq (lift (list_to_range_notation (cpu_list cpuset_arg))) (\<lambda>_.
            seq (lift (list_to_range_notation (cpu_list now_cpuset))) (\<lambda>_.
            emit (LogRecord ERROR ''KThread::pin_cset: failed to assign'')))
          else upd_kt t (\<lambda>self. self\<lparr>was_cset_successfully_once := True\<rparr>)))))))))"

definition chrt_ff :: "'k env \<Rightarrow> nat \<Rightarrow> int \<Rightarrow> ('k, unit) prog" where
  "chrt_ff E t rtprio =
     root_decorator E
       (seq (get_kt t) (\<lambda>self.
        let cmd = ''chrt -f -p '' @ py_str rtprio @ '' '' @ py_str (pid self) in
        seq (emit (Run (py_split cmd))) (\<lambda>_.
        seq (kcall (k_run E (py_split cmd))) (\<lambda>p.
        seq (lift p) (\<lambda>_. ret ())))))"

definition chrt_oth :: "'k env \<Rightarrow> nat \<Rightarrow> ('k, unit) prog" where
  "chrt_oth E t =
     root_decorator E
       (seq (get_kt t) (\<lambda>self.
        let cmd = ''chrt -o -p 0 '' @ py_str (pid self) in
        seq (emit (Run (py_split cmd))) (\<lambda>_.
        seq (kcall (k_run E (py_split cmd))) (\<lambda>p.
        seq (lift p) (\<lambda>_. ret ())))))"


section \<open>functions.py\<close>

subsection \<open>\<^verbatim>\<open>update_from_proc_interrupts\<close>\<close>

record one_int =
  num_cpus :: nat
  type_device :: "string option"
  oi_counts :: "int list"

text \<open>
  One row of the table. \<open>zip\<close> stops at the shorter of the parts and the CPU names, and
  \<open>int\<close> is applied to the zipped parts only.
\<close>

definition parse_row :: "string list \<Rightarrow> string \<Rightarrow> error + string \<times> one_int" where
  "parse_row cpu_names line =
     (let parts = split_ws (length cpu_names + 1) line in
      bnd (py_nth parts 0) (\<lambda>p0.
        let irq_name = filter (\<lambda>c. c \<noteq> CHR '':'') p0 in
        if length parts = length cpu_names + 2 then
          bnd (mapE py_int (map fst (zip (butlast (tl parts)) cpu_names))) (\<lambda>cs.
            Inr (irq_name, \<lparr>num_cpus = length cpu_names, type_device = Some (last parts),
                            oi_counts = cs\<rparr>))
        else
          bnd (mapE py_int (map fst (zip (tl parts) cpu_names))) (\<lambda>cs.
            Inr (irq_name, \<lparr>num_cpus = length cpu_names, type_device = None,
                            oi_counts = cs\<rparr>))))"

text \<open>
  \<open>data\<close> is the list of rows in the order they were stored; a name stored twice keeps
  its last row, so a lookup searches from the end.
\<close>

definition data_lookup :: "(string \<times> one_int) list \<Rightarrow> string \<Rightarrow> one_int option" where
  "data_lookup data name = map_of (rev data) name"

fun update_loop ::
  "'k env \<Rightarrow> real \<Rightarrow> (string \<times> one_int) list \<Rightarrow> nat list \<Rightarrow> ('k, unit) prog" where
  "update_loop E time_now data [] = ret ()"
| "update_loop E time_now data (a # irq_addrs) =
     seq (get_irq a) (\<lambda>irq.
       case data_lookup data (py_str (irq_id irq)) of
         Some row \<Rightarrow>
           seq (update_counts E a time_now (oi_counts row)) (\<lambda>_.
           update_loop E time_now data irq_addrs)
       | None \<Rightarrow> update_loop E time_now data irq_addrs)"

definition update_from_proc_interrupts :: "'k env \<Rightarrow> nat list \<Rightarrow> ('k, unit) prog" where
  "update_from_proc_interrupts E irq_addrs =
     seq (kcall (k_time E)) (\<lambda>time_now.
     seq (tl_procfs_read E ''/proc/interrupts'') (\<lambda>content.
       case content of
         [] \<Rightarrow>
           seq (emit (LogRecord CRITICAL ''Invalid first line of content for /proc/interrupts''))
             (\<lambda>_. raise AssertionError)
       | first # rest \<Rightarrow>
           let cpu_names = py_split first in
           if length cpu_names < 1 \<or> take 3 (hd cpu_names) \<noteq> ''CPU'' then
             seq (emit (LogRecord CRITICAL
                    ''Unable to determine number of CPUs in /proc/interrupts''))
               (\<lambda>_. raise AssertionError)
           else
             seq (lift (mapE (parse_row cpu_names) rest)) (\<lambda>data.
               if length data < 1 then
                 seq (emit (LogRecord CRITICAL ''No information in /proc/interrupts''))
                   (\<lambda>_. raise AssertionError)
               else update_loop E time_now data irq_addrs)))"

subsection \<open>\<^verbatim>\<open>match_irq_and_pci\<close>\<close>

text \<open>Strings compare as in Python: lexicographically, by character code.\<close>

fun claim_irqs ::
  "PCIDevice \<Rightarrow> int list \<Rightarrow> (int \<rightharpoonup> PCIDevice) \<Rightarrow> (int \<rightharpoonup> PCIDevice)" where
  "claim_irqs dev [] reverse_lookup = reverse_lookup"
| "claim_irqs dev (pci_irq # rest) reverse_lookup =
     claim_irqs dev rest
       (case reverse_lookup pci_irq of
          None \<Rightarrow> reverse_lookup(pci_irq \<mapsto> dev)
        | Some d \<Rightarrow>
            if pci_addr d < pci_addr dev then reverse_lookup(pci_irq \<mapsto> dev)
            else reverse_lookup)"

fun pci_reverse_lookup :: "PCIDevice list \<Rightarrow> (int \<rightharpoonup> PCIDevice) \<Rightarrow> (int \<rightharpoonup> PCIDevice)" where
  "pci_reverse_lookup [] reverse_lookup = reverse_lookup"
| "pci_reverse_lookup (dev # devs) reverse_lookup =
     pci_reverse_lookup devs (claim_irqs dev (irq_list dev) reverse_lookup)"

fun attach_pci :: "(int \<rightharpoonup> PCIDevice) \<Rightarrow> nat list \<Rightarrow> ('k, unit) prog" where
  "attach_pci reverse_lookup [] = ret ()"
| "attach_pci reverse_lookup (a # irq_addrs) =
     seq (get_irq a) (\<lambda>irq.
       case reverse_lookup (irq_id irq) of
         Some dev \<Rightarrow>
           seq (register_pci_device a dev) (\<lambda>_. attach_pci reverse_lookup irq_addrs)
       | None \<Rightarrow> attach_pci reverse_lookup irq_addrs)"

definition match_irq_and_pci :: "nat list \<Rightarrow> PCIDevice list \<Rightarrow> ('k, unit) prog" where
  "match_irq_and_pci irq_addrs devs =
     attach_pci (pci_reverse_lookup devs Map.empty) irq_addrs"

subsection \<open>\<^verbatim>\<open>match_kthread_and_irq\<close>\<close>

fun kthread_reverse_lookup ::
  "(nat \<Rightarrow> KThread) \<Rightarrow> nat list \<Rightarrow> (int \<rightharpoonup> nat) \<Rightarrow> (int \<rightharpoonup> nat)" where
  "kthread_reverse_lookup kts [] reverse_lookup = reverse_lookup"
| "kthread_reverse_lookup kts (t # kt_addrs) reverse_lookup =
     kthread_reverse_lookup kts kt_addrs
       (case irq_number (kts t) of
          Some n \<Rightarrow> reverse_lookup(n \<mapsto> t)
        | None \<Rightarrow> reverse_lookup)"

fun attach_kthread :: "(int \<rightharpoonup> nat) \<Rightarrow> nat list \<Rightarrow> ('k, unit) prog" where
  "attach_kthread reverse_lookup [] = ret ()"
| "attach_kthread reverse_lookup (a # irq_addrs) =
     seq (get_irq a) (\<lambda>irq.
       case reverse_lookup (irq_id irq) of
         Some t \<Rightarrow>
           seq (register_kthread a t) (\<lambda>_.
           seq (register_interrupt t a) (\<lambda>_.
           attach_kthread reverse_lookup irq_addrs))
       | None \<Rightarrow> attach_kthread reverse_lookup irq_addrs)"

definition match_kthread_and_irq :: "nat list \<Rightarrow> nat list \<Rightarrow> ('k, unit) prog" where
  "match_kthread_and_irq irq_addrs kt_addrs w =
     attach_kthread (kthread_reverse_lookup (kthreads w) kt_addrs Map.empty) irq_addrs w"

section \<open>meta\_obj.py\<close>

text \<open>
  \<^verbatim>\<open>EDTObject.__init__\<close>: both arguments are keyword arguments defaulting to \<open>None\<close>, and
  an IRQ or KThread object is always true in a condition.
\<close>

definition EDTObject_init :: "nat option \<Rightarrow> nat option \<Rightarrow> ('k, EDTObject) prog" where
  "EDTObject_init irq_arg kthread_arg =
     seq (case irq_arg of
            Some a \<Rightarrow>
              seq (get_irq a) (\<lambda>irq.
                case kthread irq of
                  None \<Rightarrow> raise AssertionError
                | Some t \<Rightarrow> ret (a, t))
          | None \<Rightarrow>
              (case kthread_arg of
                 Some t \<Rightarrow>
                   seq (get_kt t) (\<lambda>kt.
                     case irq_obj kt of
                       None \<Rightarrow> raise AssertionError
                     | Some a \<Rightarrow> ret (a, t))
               | None \<Rightarrow> raise ValueError)) (\<lambda>(a, t).
     seq (get_irq a) (\<lambda>irq.
       case pci_device irq of
         None \<Rightarrow> raise AssertionError
       | Some dev \<Rightarrow>
           seq (emit (LogRecord WARNING ''EDTObject::__init__ - bound together'')) (\<lambda>_.
           ret \<lparr>edt_irq = a, edt_kthread = t, edt_pci_device = dev\<rparr>)))"

text \<open>
  \<^verbatim>\<open>EDTObject.bind_to_cset\<close>. The first log line calls \<open>cset.get_str()\<close>, which sorts
  \<open>cset.cpu_list\<close> in place.
\<close>

definition bind_to_cset ::
  "'k env \<Rightarrow> EDTObject \<Rightarrow> CPUSpec \<Rightarrow> int option \<Rightarrow> ('k, unit) prog" where
  "bind_to_cset E self cset_arg ktprio =
     seq (lift (list_to_range_notation (cpu_list cset_arg))) (\<lambda>_.
     let cset_arg = cset_arg\<lparr>cpu_list := sort (cpu_list cset_arg)\<rparr> in
     if length (cpu_list cset_arg) \<noteq> 1 then raise AssertionError
     else
       seq (lift (py_nth (cpu_list cset_arg) 0)) (\<lambda>cpu.
       seq (get_irq (edt_irq self)) (\<lambda>irq.
       seq (lift (py_nth (NUMA_CPULIST E) (best_node irq))) (\<lambda>node.
         if cpu \<notin> node then
           seq (emit (LogRecord CRITICAL ''EDTObj: use of favorite NUMA node required.''))
             (\<lambda>_. raise RuntimeError)
         else
           seq (set_pin_to_cpu E (edt_irq self) (cpu_list cset_arg) False) (\<lambda>_.
           seq (pin_cset E (edt_kthread self) cset_arg) (\<lambda>_.
           seq (case ktprio of None \<Rightarrow> ret () | Some p \<Rightarrow> chrt_ff E (edt_kthread self) p) (\<lambda>_.
           seq (get_pin_to_cpu E (edt_irq self)) (\<lambda>irq_cpulist.
           seq (get_taskset E (edt_kthread self)) (\<lambda>now.
             let kt_cpulist = cpu_list now in
             if \<not> (length irq_cpulist = 1 \<and> irq_cpulist ! 0 = cpu) then raise AssertionError
             else if \<not> (length kt_cpulist = 1 \<and> kt_cpulist ! 0 = cpu) then raise AssertionError
             else ret ())))))))))"


section \<open>rtlinux\_configs.py\<close>

text \<open>
  The rule routines of the configurations, like \<^verbatim>\<open>macros.py\<close> and
  \<^verbatim>\<open>systemconfig.py\<close>, act on the entities through the operations above, with one
  exception: \<^verbatim>\<open>AORTSConfig.irq_kthread_special_rules\<close> opens with the loop
  \<^verbatim>\<open>for irq in irq_list: irq.was_pinned_successfully_once = False\<close>, before it binds and
  pins again. It is the only assignment to an attribute of an IRQ or of a kernel thread
  that is made outside their classes; \<^verbatim>\<open>systemconfig.py\<close> runs the routine twice in a
  row.
\<close>

fun reset_pinned :: "nat list \<Rightarrow> ('k, unit) prog" where
  "reset_pinned [] = ret ()"
| "reset_pinned (a # irq_addrs) =
     seq (upd_irq a (\<lambda>irq. irq\<lparr>was_pinned_successfully_once := False\<rparr>)) (\<lambda>_.
     reset_pinned irq_addrs)"

section \<open>The range notation as the specification words it\<close>

text \<open>
  The specification describes the serialisation as comma-separated ascending tokens,
  each a single integer or an inclusive \<open>low-high\<close> pair, one per maximal run of
  consecutive integers. The definitions of this section follow those words, not the
  code: \<open>consecutive_runs\<close> cuts a list into runs \<open>(low, high)\<close>, \<open>run_token\<close> writes one
  run, \<open>join_comma\<close> joins the tokens, \<open>run_members\<close> lists the members of a run, and
  \<open>runs_separated\<close> says that no run can be extended: each run is non-empty and the
  next one starts more than one above its end.
\<close>

fun runs_from :: "int \<Rightarrow> int \<Rightarrow> int list \<Rightarrow> (int \<times> int) list" where
  "runs_from lo hi [] = [(lo, hi)]"
| "runs_from lo hi (c # cs) =
     (if c = hi + 1 then runs_from lo c cs else (lo, hi) # runs_from c c cs)"

fun consecutive_runs :: "int list \<Rightarrow> (int \<times> int) list" where
  "consecutive_runs [] = []"
| "consecutive_runs (c # cs) = runs_from c c cs"

definition run_token :: "int \<times> int \<Rightarrow> string" where
  "run_token r =
     (if fst r = snd r then py_str (fst r) else py_str (fst r) @ ''-'' @ py_str (snd r))"

fun join_comma :: "string list \<Rightarrow> string" where
  "join_comma [] = []"
| "join_comma [t] = t"
| "join_comma (t # ts) = t @ '','' @ join_comma ts"

fun runs_separated :: "(int \<times> int) list \<Rightarrow> bool" where
  "runs_separated [] = True"
| "runs_separated [r] = (fst r \<le> snd r)"
| "runs_separated (r # r' # rs) =
     (fst r \<le> snd r \<and> snd r + 1 < fst r' \<and> runs_separated (r' # rs))"

definition run_members :: "int \<times> int \<Rightarrow> int list" where
  "run_members r = [fst r..snd r]"

definition is_dec :: "char \<Rightarrow> bool" where
  "is_dec c = (48 \<le> (of_char c :: int) \<and> (of_char c :: int) \<le> 57)"

section \<open>The rows a sampler pass sees\<close>

text \<open>
  \<open>snapshot_names E w\<close> is the set of row names of the interrupt table that
  \<^verbatim>\<open>update_from_proc_interrupts\<close> reads when it is started in world \<open>w\<close>: the names
  stored in \<open>data\<close>.
\<close>

definition snapshot_names :: "'k env \<Rightarrow> 'k world \<Rightarrow> string set" where
  "snapshot_names E w =
     (case fst (tl_procfs_read E ''/proc/interrupts'' (snd (kcall (k_time E) w))) of
        Inr (first # rest) \<Rightarrow>
          (case mapE (parse_row (py_split first)) rest of
             Inr data \<Rightarrow> fst ` set data
           | Inl _ \<Rightarrow> {})
      | _ \<Rightarrow> {})"

section \<open>A small machine for worked examples\<close>

text \<open>
  One CPU, one NUMA node holding CPUs 0 to 3, a kernel whose state is a table of files:
  reading returns the file, writing stores the content as the file's only line, and
  every tool call succeeds. The clock always shows 10 seconds.
\<close>

definition demo_files :: "string \<Rightarrow> string list option" where
  "demo_files =
     map_of
       [(''/proc/irq/5/smp_affinity'', [''f'']),
        (''/proc/irq/5/effective_affinity'', [''1'']),
        (''/proc/irq/5/spurious'', [''count 0'', ''unhandled 0'', ''last_unhandled 0 ms'']),
        (''/proc/interrupts'',
           [''           CPU0'', ''  5:        100   IO-APIC   5-edge      timer'',
            '' 42:          7   PCI-MSI    eth0''])]"

definition demo_env :: "(string \<Rightarrow> string list option) env" where
  "demo_env =
     \<lparr>uid = 0, CPU_COUNT = 1, NUMA_CPULIST = [{0, 1, 2, 3}],
      py_float = (\<lambda>s. bnd (py_int s) (\<lambda>i. Inr (real_of_int i))),
      k_time = (\<lambda>k. (10, k)),
      k_read = (\<lambda>file k. (case k file of None \<Rightarrow> Inl FileNotFoundError | Some c \<Rightarrow> Inr c, k)),
      k_write = (\<lambda>file content k. (None, k(file \<mapsto> [content]))),
      k_kill0 = (\<lambda>p k. (None, k)),
      k_sched_getaffinity = (\<lambda>p k. (Inr [0, 1, 2, 3], k)),
      k_run = (\<lambda>argv k. (Inr 0, k)),
      k_cset_proc = (\<lambda>argv k. (None, k))\<rparr>"

definition blank_IRQ :: IRQ where
  "blank_IRQ =
     \<lparr>irq_id = 0, procfs_folder = [], smp_affinity = 0, smp_affinity_list = [],
      eff_affinity = 0, eff_affinity_list = [], best_node = - 2, pci_device = None,
      kthread = None, irq_count = 0, unhandled = 0, last_unhandled_ms = 0,
      counts = [], counts_time = 0, counts_hz = [], was_pinned_successfully_once = False\<rparr>"

definition blank_KThread :: KThread where
  "blank_KThread =
     \<lparr>pid = 0, kt_name = [], alive_flag = True, sched_cls = UNKNOWN, kthread_type = OTHER,
      irq_number = None, irq_obj = None, is_rcu = False, rcuc_cpu = None,
      was_cset_successfully_once = False, comm = [], cpuset = [], sched_info = [],
      runtime = 0, runtime_incr = 0, migrations = 0, migrations_incr = 0,
      nr_sw = 0, nr_sw_incr = 0, nr_sw_vol = 0, nr_sw_vol_incr = 0,
      nr_sw_unvol = 0, nr_sw_unvol_incr = 0, dt_last_contents = 0, time_last_contents = 0\<rparr>"

definition demo_world :: "(string \<Rightarrow> string list option) world" where
  "demo_world =
     \<lparr>irqs = (\<lambda>_. blank_IRQ), kthreads = (\<lambda>_. blank_KThread), kern = demo_files, trace = []\<rparr>"

definition demo_tracked :: "(string \<Rightarrow> string list option) world" where
  "demo_tracked =
     snd (upd_irq 1 (\<lambda>_. blank_IRQ\<lparr>irq_id := 9, counts := [3], counts_time := 4,
                                   counts_hz := [Rate 2]\<rparr>)
            (snd (IRQ_init demo_env 0 5 demo_world)))"

definition irq_lists_ok :: "IRQ \<Rightarrow> bool" where
  "irq_lists_ok x =
     ((\<forall>c \<in> set (smp_affinity_list x). 0 \<le> c) \<and> (\<forall>c \<in> set (eff_affinity_list x). 0 \<le> c))"

definition demo_devs :: "PCIDevice list" where
  "demo_devs =
     [\<lparr>pci_addr = ''0000:01:00.0'', irq_type = LEGACY, irq_list = [42], cpu_set = {0, 1},
       numa_node = 0, driver = ''nsl'', net_iface = [], ip_addr = []\<rparr>,
      \<lparr>pci_addr = ''0000:02:00.0'', irq_type = MSI, irq_list = [41, 42], cpu_set = {2, 3},
       numa_node = 1, driver = ''edt'', net_iface = [], ip_addr = []\<rparr>]"

definition demo_irq42 :: "(string \<Rightarrow> string list option) world" where
  "demo_irq42 = snd (upd_irq 0 (\<lambda>_. blank_IRQ\<lparr>irq_id := 42\<rparr>) demo_world)"

definition demo_dev :: PCIDevice where
  "demo_dev =
     \<lparr>pci_addr = ''0000:02:00.0'', irq_type = MSI, irq_list = [42], cpu_set = {0, 1, 2, 3},
      numa_node = 0, driver = ''edt'', net_iface = [], ip_addr = []\<rparr>"

definition demo_one_way :: "(string \<Rightarrow> string list option) world" where
  "demo_one_way =
     snd (upd_irq 0 (\<lambda>_. blank_IRQ\<lparr>irq_id := 42, kthread := Some 0,
                                   pci_device := Some demo_dev, best_node := 0\<rparr>)
            demo_world)"

definition demo_edt :: EDTObject where
  "demo_edt = \<lparr>edt_irq = 0, edt_kthread = 0, edt_pci_device = demo_dev\<rparr>"

definition demo_cset :: "int list \<Rightarrow> CPUSpec" where
  "demo_cset l =
     \<lparr>cs_name = ''rt'', cpu_list = l, cpu_mask = 0, mem_list = None, no_irqbalance = False\<rparr>"

section \<open>Sequences of operations\<close>

text \<open>
  A caller's sequence of operations on entities that exist. Each call runs to its
  return or to its exception, which ends that call only; what it did to the world
  stays. Between two calls anything may happen in the kernel (\<open>Outside\<close>): a process
  may die, a process id may be reused, an affinity may be changed by someone else.
  \<open>CallResetPinned\<close> is the reset loop of the rule routine of \<^verbatim>\<open>AORTSConfig\<close>; the rest
  of that routine is a sequence of the other calls. \<open>resets c\<close> is the set of IRQs whose
  flag the call \<open>c\<close> assigns \<open>False\<close>.
\<close>

datatype 'k call =
    CallAlive nat
  | CallGetTaskset nat
  | CallKThreadRefresh nat
  | CallPinTaskset nat CPUSpec
  | CallPinCset nat CPUSpec
  | CallChrtFF nat int
  | CallChrtOth nat
  | CallRegisterInterrupt nat nat
  | CallIRQRefresh nat
  | CallGetPin nat
  | CallSetPin nat "int list" bool
  | CallUpdateCounts nat real "int list"
  | CallUpdateInterrupts "nat list"
  | CallMatchPci "nat list" "PCIDevice list"
  | CallMatchKThread "nat list" "nat list"
  | CallNewBundle "nat option" "nat option"
  | CallBind EDTObject CPUSpec "int option"
  | CallResetPinned "nat list"
  | Outside "'k \<Rightarrow> 'k"

fun run_call :: "'k env \<Rightarrow> 'k call \<Rightarrow> 'k world \<Rightarrow> 'k world" where
  "run_call E (CallAlive t) w = snd (alive E t w)"
| "run_call E (CallGetTaskset t) w = snd (get_taskset E t w)"
| "run_call E (CallKThreadRefresh t) w = snd (KThread_refresh_contents E t w)"
| "run_call E (CallPinTaskset t cs) w = snd (pin_taskset E t cs w)"
| "run_call E (CallPinCset t cs) w = snd (pin_cset E t cs w)"
| "run_call E (CallChrtFF t p) w = snd (chrt_ff E t p w)"
| "run_call E (CallChrtOth t) w = snd (chrt_oth E t w)"
| "run_call E (CallRegisterInterrupt t a) w = snd (register_interrupt t a w)"
| "run_call E (CallIRQRefresh a) w = snd (IRQ_refresh_contents E a w)"
| "run_call E (CallGetPin a) w = snd (get_pin_to_cpu E a w)"
| "run_call E (CallSetPin a l ok) w = snd (set_pin_to_cpu E a l ok w)"
| "run_call E (CallUpdateCounts a t cs) w = snd (update_counts E a t cs w)"
| "run_call E (CallUpdateInterrupts as) w = snd (update_from_proc_interrupts E as w)"
| "run_call E (CallMatchPci as devs) w = snd (match_irq_and_pci as devs w)"
| "run_call E (CallMatchKThread as ts) w = snd (match_kthread_and_irq as ts w)"
| "run_call E (CallNewBundle i k) w = snd (EDTObject_init i k w)"
| "run_call E (CallBind self cs p) w = snd (bind_to_cset E self cs p w)"
| "run_call E (CallResetPinned as) w = snd (reset_pinned as w)"
| "run_call E (Outside f) w = w\<lparr>kern := f (kern w)\<rparr>"

fun run_calls :: "'k env \<Rightarrow> 'k call list \<Rightarrow> 'k world \<Rightarrow> 'k world" where
  "run_calls E [] w = w"
| "run_calls E (c # cs) w = run_calls E cs (run_call E c w)"

fun resets :: "'k call \<Rightarrow> nat set" where
  "resets (CallResetPinned as) = set as"
| "resets _ = {}"

text \<open>
  A machine on which process 77 exists exactly while its \<open>comm\<close> file does, and a world
  with one kernel thread of that process id.
\<close>

definition demo_dead_env :: "(string \<Rightarrow> string list option) env" where
  "demo_dead_env =
     demo_env
       \<lparr>k_kill0 :=
          (\<lambda>p k. (if k ''/proc/77/comm'' = None then Some ProcessLookupError else None, k)),
        k_sched_getaffinity :=
          (\<lambda>p k. (if k ''/proc/77/comm'' = None then Inl ProcessLookupError
                    else Inr [0, 1, 2, 3], k))\<rparr>"

definition demo_thread :: "(string \<Rightarrow> string list option) world" where
  "demo_thread = snd (upd_kt 0 (\<lambda>_. blank_KThread\<lparr>pid := 77\<rparr>) demo_world)"

definition pid_reused :: "(string \<Rightarrow> string list option) call" where
  "pid_reused = Outside (\<lambda>k. k(''/proc/77/comm'' \<mapsto> [''bash'']))"




text \<open>A world with an IRQ whose preferred NUMA node is node 0, the CPUs 0 to 3.\<close>

definition demo_numa :: "(string \<Rightarrow> string list option) world" where
  "demo_numa =
     demo_world\<lparr>irqs := (\<lambda>_. blank_IRQ)
       (0 := blank_IRQ\<lparr>irq_id := 5, procfs_folder := ''/proc/irq/5'', best_node := 0\<rparr>)\<rparr>"

section \<open>Properties of programs\<close>

text \<open>
  \<open>inv P m\<close>: whatever \<open>m\<close> returns or raises, it takes a world satisfying \<open>P\<close> to a world
  satisfying \<open>P\<close>. \<open>evolves w w'\<close> collects what no operation of the classes, of
  \<^verbatim>\<open>functions.py\<close> or of a bundle undoes on an existing entity: a pin-success flag
  that is set stays set, a thread found dead stays dead, and the trace only grows.
\<close>

definition inv :: "('k world \<Rightarrow> bool) \<Rightarrow> ('k, 'a) prog \<Rightarrow> bool" where
  "inv P m = (\<forall>w r w'. P w \<longrightarrow> m w = (r, w') \<longrightarrow> P w')"

definition evolves :: "'k world \<Rightarrow> 'k world \<Rightarrow> bool" where
  "evolves w w' =
     ((\<forall>a. was_pinned_successfully_once (irqs w a) \<longrightarrow> was_pinned_successfully_once (irqs w' a))
    \<and> (\<forall>t. was_cset_successfully_once (kthreads w t) \<longrightarrow> was_cset_successfully_once (kthreads w' t))
    \<and> (\<forall>t. \<not> alive_flag (kthreads w t) \<longrightarrow> \<not> alive_flag (kthreads w' t))
    \<and> (\<exists>es. trace w' = trace w @ es))"

text \<open>
  \<open>evolves_outside S w w'\<close> is what is left of it over a sequence of calls that may
  reset the flag of the IRQs in \<open>S\<close>: the flag of an IRQ outside \<open>S\<close> stays set, and so do
  the flag and the death of a kernel thread.
\<close>

definition evolves_outside :: "nat set \<Rightarrow> 'k world \<Rightarrow> 'k world \<Rightarrow> bool" where
  "evolves_outside S w w' =
     ((\<forall>a. a \<notin> S \<longrightarrow> was_pinned_successfully_once (irqs w a)
            \<longrightarrow> was_pinned_successfully_once (irqs w' a))
    \<and> (\<forall>t. was_cset_successfully_once (kthreads w t) \<longrightarrow> was_cset_successfully_once (kthreads w' t))
    \<and> (\<forall>t. \<not> alive_flag (kthreads w t) \<longrightarrow> \<not> alive_flag (kthreads w' t)))"

section \<open>Verification: the codecs\<close>

lemma upto_props:
  "lo \<le> hi \<Longrightarrow> [lo..hi] \<noteq> []"
  "lo \<le> hi \<Longrightarrow> hd [lo..hi] = lo"
  "lo \<le> hi \<Longrightarrow> last [lo..hi] = hi"
  "lo \<le> hi \<Longrightarrow> (length [lo..hi] = 1) = (lo = hi)"
  "lo \<le> hi \<Longrightarrow> [lo..hi] @ [hi + 1] = [lo..hi + 1]"
proof -
  assume h: "lo \<le> hi"
  show "[lo..hi] \<noteq> []" using h by simp
  show "hd [lo..hi] = lo" using h by (simp add: upto_rec1)
  show "last [lo..hi] = hi" using h by (simp add: upto_rec2)
  show "(length [lo..hi] = 1) = (lo = hi)" using h by auto
  show "[lo..hi] @ [hi + 1] = [lo..hi + 1]" using h by (simp add: upto_rec2)
qed

lemma lrn_loop_runs:
  "lo \<le> hi \<Longrightarrow> 0 \<le> hi \<Longrightarrow> \<forall>c \<in> set cs. 0 \<le> c \<Longrightarrow>
   lrn_loop (cs @ [- 1]) [lo..hi] s =
     ([- 1], s @ concat (map (\<lambda>r. '','' @ run_token r) (runs_from lo hi cs)))"
proof (induction cs arbitrary: lo hi s)
  case Nil
  then show ?case by (auto simp: upto_props run_token_def)
next
  case (Cons c cs)
  show ?case
  proof (cases "c = hi + 1")
    case True
    have "lrn_loop ((c # cs) @ [- 1]) [lo..hi] s = lrn_loop (cs @ [- 1]) [lo..c] s"
      using Cons.prems True by (simp add: upto_props)
    also have "\<dots> = ([- 1], s @ concat (map (\<lambda>r. '','' @ run_token r) (runs_from lo c cs)))"
      using Cons.prems True by (intro Cons.IH) auto
    finally show ?thesis using True by simp
  next
    case False
    have c0: "0 \<le> c" using Cons.prems by simp
    have "lrn_loop ((c # cs) @ [- 1]) [lo..hi] s =
          lrn_loop (cs @ [- 1]) [c..c] (s @ '','' @ run_token (lo, hi))"
      using Cons.prems False by (auto simp: upto_props run_token_def)
    also have "\<dots> = ([- 1], (s @ '','' @ run_token (lo, hi)) @
                  concat (map (\<lambda>r. '','' @ run_token r) (runs_from c c cs)))"
      using Cons.prems c0 by (intro Cons.IH) auto
    finally show ?thesis using False by simp
  qed
qed

lemma drop1_commas: "drop 1 (concat (map (\<lambda>t. '','' @ t) ts)) = join_comma ts"
  by (induction ts rule: join_comma.induct) auto

lemma list_to_range_notation_runs:
  assumes "\<forall>c \<in> set L. 0 \<le> c"
  shows "list_to_range_notation L = Inr (join_comma (map run_token (consecutive_runs (sort L))))"
proof (cases "sort L")
  case Nil
  then show ?thesis by (simp add: list_to_range_notation_def)
next
  case (Cons c cs)
  have nn: "\<forall>x \<in> set (c # cs). 0 \<le> x"
    using assms Cons by (metis set_sort)
  have "lrn_loop (sort L @ [- 1]) [] [] = lrn_loop (cs @ [- 1]) [c..c] []"
    using Cons by simp
  also have "\<dots> = ([- 1], [] @ concat (map (\<lambda>r. '','' @ run_token r) (runs_from c c cs)))"
    using nn by (intro lrn_loop_runs) auto
  finally show ?thesis
    using Cons drop1_commas [of "map run_token (runs_from c c cs)"]
    by (simp add: list_to_range_notation_def comp_def)
qed

lemma of_char_digit: "0 \<le> d \<Longrightarrow> d < 10 \<Longrightarrow> (of_char (char_of (48 + d :: int)) :: int) = 48 + d"
  by (simp add: of_char_of)

lemma str_digits_dec: "0 \<le> n \<Longrightarrow> \<forall>c \<in> set (str_digits n). is_dec c"
proof (induction n rule: str_digits.induct)
  case (1 n)
  show ?case
  proof (cases "n < 10")
    case True
    then show ?thesis using "1.prems" of_char_digit [of n]
      by (subst str_digits.simps) (simp add: is_dec_def)
  next
    case False
    have "0 \<le> n mod 10" "n mod 10 < 10" by simp_all
    then have "is_dec (char_of (48 + n mod 10))"
      using of_char_digit [of "n mod 10"] by (simp add: is_dec_def)
    moreover have "\<forall>c \<in> set (str_digits (n div 10)). is_dec c"
      using False "1.prems" by (intro "1.IH") auto
    ultimately show ?thesis using False
      by (subst str_digits.simps) simp
  qed
qed

lemma str_digits_nonempty: "str_digits n \<noteq> []"
  by (subst str_digits.simps) simp

lemma digits_value_snoc:
  "digits_value b (ds @ [c]) = digits_value b ds * b + the (digit_val c)"
  by (simp add: digits_value_def)

lemma digit_val_digit: "0 \<le> d \<Longrightarrow> d < 10 \<Longrightarrow> digit_val (char_of (48 + d :: int)) = Some d"
  using of_char_digit [of d] by (simp add: digit_val_def Let_def)

lemma digits_value_str_digits: "0 \<le> n \<Longrightarrow> digits_value 10 (str_digits n) = n"
proof (induction n rule: str_digits.induct)
  case (1 n)
  show ?case
  proof (cases "n < 10")
    case True
    then show ?thesis using "1.prems" digit_val_digit [of n]
      by (subst str_digits.simps) (simp add: digits_value_def)
  next
    case False
    have d: "digit_val (char_of (48 + n mod 10)) = Some (n mod 10)"
      by (intro digit_val_digit) simp_all
    have "digits_value 10 (str_digits (n div 10)) = n div 10"
      using False "1.prems" by (intro "1.IH") auto
    then show ?thesis using False d
      by (subst str_digits.simps) (simp add: digits_value_snoc)
  qed
qed

lemma is_dec_facts:
  "is_dec c \<Longrightarrow> \<not> int_space c"
  "is_dec c \<Longrightarrow> c \<noteq> CHR ''-''"
  "is_dec c \<Longrightarrow> c \<noteq> CHR ''+''"
  "is_dec c \<Longrightarrow> c \<noteq> CHR ''_''"
  "is_dec c \<Longrightarrow> c \<noteq> CHR '',''"
  "is_dec c \<Longrightarrow> is_digit 10 c"
  by (auto simp: is_dec_def int_space_def is_digit_def digit_val_def Let_def)

lemma split_on_absent: "sep \<notin> set s \<Longrightarrow> split_on sep s = [s]"
  by (induction s) auto

lemma split_on_first: "sep \<notin> set t \<Longrightarrow> split_on sep (t @ sep # rest) = t # split_on sep rest"
  by (induction t) auto

lemma dropWhile_none: "\<forall>x \<in> set xs. \<not> P x \<Longrightarrow> dropWhile P xs = xs"
  by (cases xs) auto

lemma int_strip_id:
  "\<forall>c \<in> set s. \<not> int_space c \<Longrightarrow> rev (dropWhile int_space (rev (dropWhile int_space s))) = s"
  by (simp add: dropWhile_none)

lemma py_int_dec:
  assumes "ds \<noteq> []" "\<forall>c \<in> set ds. is_dec c"
  shows "py_int ds = Inr (digits_value 10 ds)"
proof -
  have s: "rev (dropWhile int_space (rev (dropWhile int_space ds))) = ds"
    using assms by (intro int_strip_id) (auto dest: is_dec_facts)
  have h: "hd ds \<noteq> CHR ''-''" "hd ds \<noteq> CHR ''+''"
    using assms by (cases ds; auto dest: is_dec_facts)+
  have sp: "split_on CHR ''_'' ds = [ds]"
    using assms by (intro split_on_absent) (auto dest: is_dec_facts)
  show ?thesis using assms s h sp
    by (auto simp: py_int_def py_int_base_def Let_def dest: is_dec_facts)
qed

lemma py_int_py_str: "0 \<le> n \<Longrightarrow> py_int (py_str n) = Inr n"
  using py_int_dec [of "str_digits n"] str_digits_dec [of n] str_digits_nonempty [of n]
    digits_value_str_digits [of n]
  by (simp add: py_str_def)

lemma py_str_chars: "0 \<le> n \<Longrightarrow> \<forall>c \<in> set (py_str n). is_dec c"
  using str_digits_dec [of n] by (simp add: py_str_def)

lemma py_str_nonempty: "py_str n \<noteq> []"
  by (simp add: py_str_def str_digits_nonempty)

lemma range_token_run:
  assumes "0 \<le> l" "l \<le> h"
  shows "range_token (run_token (l, h)) = Inr [l..h]"
proof (cases "l = h")
  case True
  have "CHR ''-'' \<notin> set (py_str l)" using assms py_str_chars [of l] by (auto dest: is_dec_facts)
  then show ?thesis using True assms py_int_py_str [of l]
    by (simp add: range_token_def run_token_def bnd_def)
next
  case False
  have nl: "CHR ''-'' \<notin> set (py_str l)" using assms py_str_chars [of l] by (auto dest: is_dec_facts)
  have nh: "CHR ''-'' \<notin> set (py_str h)" using assms py_str_chars [of h] by (auto dest: is_dec_facts)
  have "split_on CHR ''-'' (py_str l @ CHR ''-'' # py_str h) = [py_str l, py_str h]"
    using nl nh by (simp add: split_on_first split_on_absent)
  then show ?thesis using False assms py_int_py_str [of l] py_int_py_str [of h]
    by (simp add: range_token_def run_token_def bnd_def)
qed

lemma run_token_no_comma: "0 \<le> l \<Longrightarrow> 0 \<le> h \<Longrightarrow> CHR '','' \<notin> set (run_token (l, h))"
  using py_str_chars [of l] py_str_chars [of h]
  by (auto simp: run_token_def dest: is_dec_facts)

lemma run_token_nonempty: "run_token r \<noteq> []"
  by (simp add: run_token_def py_str_nonempty)

lemma split_join_comma:
  "ts \<noteq> [] \<Longrightarrow> \<forall>t \<in> set ts. CHR '','' \<notin> set t \<Longrightarrow> split_on CHR '','' (join_comma ts) = ts"
proof (induction ts rule: join_comma.induct)
  case 1
  then show ?case by simp
next
  case (2 t)
  then show ?case by (simp add: split_on_absent)
next
  case (3 t v va)
  then show ?case by (simp add: split_on_first)
qed

lemma join_comma_nonempty: "ts \<noteq> [] \<Longrightarrow> \<forall>t \<in> set ts. t \<noteq> [] \<Longrightarrow> join_comma ts \<noteq> []"
  by (induction ts rule: join_comma.induct) auto

lemma mapE_range_token_runs:
  "\<forall>r \<in> set rs. 0 \<le> fst r \<and> fst r \<le> snd r \<Longrightarrow>
   mapE range_token (map run_token rs) = Inr (map run_members rs)"
proof (induction rs)
  case Nil
  then show ?case by simp
next
  case (Cons r rs)
  obtain l h where r: "r = (l, h)" by (cases r)
  have "range_token (run_token r) = Inr [l..h]"
    using Cons.prems r by (simp add: range_token_run)
  then show ?case using Cons r by (simp add: bnd_def run_members_def)
qed

lemma range_to_list_runs:
  assumes "\<forall>r \<in> set rs. 0 \<le> fst r \<and> fst r \<le> snd r"
  shows "range_to_list (join_comma (map run_token rs)) = Inr (concat (map run_members rs))"
proof (cases rs)
  case Nil
  then show ?thesis by (simp add: range_to_list_def)
next
  case (Cons r rs')
  have ne: "map run_token rs \<noteq> []" using Cons by simp
  have nc: "\<forall>t \<in> set (map run_token rs). CHR '','' \<notin> set t"
  proof
    fix t assume "t \<in> set (map run_token rs)"
    then obtain r where r: "r \<in> set rs" "t = run_token r" by auto
    then have "0 \<le> fst r" "0 \<le> snd r" using assms by auto
    then show "CHR '','' \<notin> set t" using r run_token_no_comma [of "fst r" "snd r"] by simp
  qed
  have "join_comma (map run_token rs) \<noteq> []"
    using ne by (intro join_comma_nonempty) (auto simp: run_token_nonempty)
  then show ?thesis
    using split_join_comma [OF ne nc] mapE_range_token_runs [OF assms]
    by (simp add: range_to_list_def bnd_def)
qed

lemma runs_from_members:
  "lo \<le> hi \<Longrightarrow> concat (map run_members (runs_from lo hi cs)) = [lo..hi] @ cs"
proof (induction cs arbitrary: lo hi)
  case Nil
  then show ?case by (simp add: run_members_def)
next
  case (Cons c cs)
  show ?case
  proof (cases "c = hi + 1")
    case True
    have "concat (map run_members (runs_from lo c cs)) = [lo..c] @ cs"
      using Cons.prems True by (intro Cons.IH) simp
    moreover have "[lo..c] = [lo..hi] @ [c]"
      using Cons.prems True upto_props(5) [of lo hi] by simp
    ultimately show ?thesis using True by simp
  next
    case False
    have "concat (map run_members (runs_from c c cs)) = [c..c] @ cs"
      by (intro Cons.IH) simp
    moreover have "run_members (lo, hi) = [lo..hi]" by (simp add: run_members_def)
    ultimately show ?thesis using False by simp
  qed
qed

lemma runs_from_nonempty: "runs_from lo hi cs \<noteq> []"
  by (induction cs arbitrary: lo hi) auto

lemma runs_from_bounds:
  "lo \<le> hi \<Longrightarrow> 0 \<le> lo \<Longrightarrow> \<forall>c \<in> set cs. 0 \<le> c \<Longrightarrow>
   \<forall>r \<in> set (runs_from lo hi cs). 0 \<le> fst r \<and> fst r \<le> snd r"
proof (induction cs arbitrary: lo hi)
  case Nil
  then show ?case by simp
next
  case (Cons c cs)
  have 1: "\<forall>r \<in> set (runs_from lo (hi + 1) cs). 0 \<le> fst r \<and> fst r \<le> snd r"
    using Cons.prems by (intro Cons.IH) auto
  have 2: "\<forall>r \<in> set (runs_from c c cs). 0 \<le> fst r \<and> fst r \<le> snd r"
    using Cons.prems by (intro Cons.IH) auto
  show ?case using 1 2 Cons.prems by auto
qed

lemma runs_from_hd: "fst (hd (runs_from lo hi cs)) = lo"
  by (induction cs arbitrary: hi) auto

lemma runs_from_separated:
  "lo \<le> hi \<Longrightarrow> sorted (hi # cs) \<Longrightarrow> distinct (hi # cs) \<Longrightarrow> runs_separated (runs_from lo hi cs)"
proof (induction cs arbitrary: lo hi)
  case Nil
  then show ?case by simp
next
  case (Cons c cs)
  show ?case
  proof (cases "c = hi + 1")
    case True
    then show ?thesis using Cons.prems Cons.IH [of lo c] by auto
  next
    case False
    have lt: "hi + 1 < c" using False Cons.prems by auto
    have sep: "runs_separated (runs_from c c cs)"
      using Cons.prems by (intro Cons.IH) auto
    obtain r rs where rr: "runs_from c c cs = r # rs"
      using runs_from_nonempty [of c c cs] by (cases "runs_from c c cs") auto
    have "fst r = c" using runs_from_hd [of c c cs] rr by simp
    then show ?thesis using False lt sep rr Cons.prems by simp
  qed
qed

lemma bit_or_one_shift: "bit (m OR 2 ^ n :: int) i = (bit m i \<or> i = n)"
  by (auto simp: bit_or_iff bit_exp_iff)

lemma ltm_loop_bits:
  "ltm_loop L m0 = Inr m \<Longrightarrow>
     (\<forall>c \<in> set L. 0 \<le> c) \<and> (\<forall>i. bit m i = (bit m0 i \<or> int i \<in> set L))"
proof (induction L arbitrary: m0)
  case Nil
  then show ?case by simp
next
  case (Cons c cs)
  have c0: "0 \<le> c" using Cons.prems by (simp split: if_splits)
  then have "ltm_loop cs (m0 OR push_bit (nat c) 1) = Inr m" using Cons.prems by simp
  from Cons.IH [OF this] have ih: "\<forall>c \<in> set cs. 0 \<le> c"
    "\<forall>i. bit m i = (bit (m0 OR 2 ^ nat c) i \<or> int i \<in> set cs)" by simp_all
  have "\<forall>i. (i = nat c) = (int i = c)" using c0 by auto
  then show ?case using c0 ih by (auto simp: bit_or_one_shift)
qed

lemma ltm_loop_total: "\<forall>c \<in> set L. 0 \<le> c \<Longrightarrow> \<exists>m. ltm_loop L m0 = Inr m"
  by (induction L arbitrary: m0) auto

lemma mtl_loop_sorted:
  "0 \<le> m \<Longrightarrow> sorted acc \<Longrightarrow> distinct acc \<Longrightarrow> \<forall>x \<in> set acc. x < cc \<Longrightarrow>
   sorted (mtl_loop m cc acc) \<and> distinct (mtl_loop m cc acc)"
proof (induction m cc acc rule: mtl_loop.induct)
  case (1 msk cc int_list)
  show ?case
  proof (cases "msk > 0")
    case False
    then show ?thesis using "1.prems" by (subst (1 2) mtl_loop.simps) simp
  next
    case True
    let ?l = "if msk AND 1 \<noteq> 0 then int_list @ [cc] else int_list"
    have "sorted (mtl_loop (drop_bit 1 msk) (cc + 1) ?l) \<and> distinct (mtl_loop (drop_bit 1 msk) (cc + 1) ?l)"
    proof (rule "1.IH" [OF True])
      show "0 \<le> drop_bit 1 msk" using True by simp
      show "sorted ?l" using "1.prems" by (auto simp: sorted_append less_imp_le)
      show "distinct ?l" using "1.prems" by auto
      show "\<forall>x \<in> set ?l. x < cc + 1" using "1.prems" by auto
    qed
    then show ?thesis using True by (subst (1 2) mtl_loop.simps) simp
  qed
qed

lemma mask_to_list_sorted: "mask_to_list m = Inr l \<Longrightarrow> sorted l \<and> distinct l"
  using mtl_loop_sorted [of m "[]" 0] by (auto simp: mask_to_list_def split: if_splits)

text \<open>
  Claim C2. For every sorted list \<open>L\<close> of distinct non-negative integers, the
  serialisation of \<open>L\<close> is the comma-joined tokens of its maximal consecutive runs,
  parsing that string returns \<open>L\<close>, the runs cover \<open>L\<close> exactly and none can be
  extended; the empty list and the empty string are each other's image, and
  \<open>[0,1,2,5,7,8,9]\<close> and \<open>0-2,5,7-9\<close> are each other's image.
\<close>

theorem range_notation_round_trip:
  assumes "sorted L" and "distinct L" and "\<forall>c \<in> set L. 0 \<le> c"
  shows "list_to_range_notation L = Inr (join_comma (map run_token (consecutive_runs L)))
       \<and> range_to_list (join_comma (map run_token (consecutive_runs L))) = Inr L
       \<and> concat (map run_members (consecutive_runs L)) = L
       \<and> runs_separated (consecutive_runs L)
       \<and> list_to_range_notation [] = Inr ''''
       \<and> range_to_list '''' = Inr []
       \<and> list_to_range_notation [0, 1, 2, 5, 7, 8, 9] = Inr ''0-2,5,7-9''
       \<and> range_to_list ''0-2,5,7-9'' = Inr [0, 1, 2, 5, 7, 8, 9]"
proof -
  have srt: "sort L = L" using assms(1) by (simp add: sort_key_id_if_sorted)
  have ser: "list_to_range_notation L = Inr (join_comma (map run_token (consecutive_runs L)))"
    using list_to_range_notation_runs [OF assms(3)] srt by simp
  have mem: "concat (map run_members (consecutive_runs L)) = L"
    by (cases L) (simp_all add: runs_from_members)
  have bounds: "\<forall>r \<in> set (consecutive_runs L). 0 \<le> fst r \<and> fst r \<le> snd r"
  proof (cases L)
    case Nil
    then show ?thesis by simp
  next
    case (Cons c cs)
    then show ?thesis using assms(3) runs_from_bounds [of c c cs] by simp
  qed
  have par: "range_to_list (join_comma (map run_token (consecutive_runs L))) = Inr L"
    using range_to_list_runs [OF bounds] mem by simp
  have sep: "runs_separated (consecutive_runs L)"
  proof (cases L)
    case Nil
    then show ?thesis by simp
  next
    case (Cons c cs)
    then show ?thesis using assms(1,2) runs_from_separated [of c c cs] by simp
  qed
  have e1: "list_to_range_notation [] = Inr ''''" by code_simp
  have e2: "range_to_list '''' = Inr []" by code_simp
  have e3: "list_to_range_notation [0, 1, 2, 5, 7, 8, 9] = Inr ''0-2,5,7-9''" by code_simp
  have e4: "range_to_list ''0-2,5,7-9'' = Inr [0, 1, 2, 5, 7, 8, 9]" by code_simp
  show ?thesis using ser par mem sep e1 e2 e3 e4 by simp
qed

theorem range_notation_round_trip_witness:
  "sorted [0, 3, 4 :: int] \<and> distinct [0, 3, 4 :: int] \<and> list_all (\<lambda>c. 0 \<le> c) [0, 3, 4 :: int]
   \<and> list_to_range_notation [0, 3, 4] = Inr ''0,3-4''
   \<and> range_to_list ''0,3-4'' = Inr [0, 3, 4]
   \<and> consecutive_runs [0, 3, 4] = [(0, 0), (3, 4)]"
proof -
  have h: "sorted [0, 3, 4 :: int]" "distinct [0, 3, 4 :: int]" "\<forall>c \<in> set [0, 3, 4 :: int]. 0 \<le> c"
    by simp_all
  have j: "join_comma (map run_token (consecutive_runs [0, 3, 4])) = ''0,3-4''" by code_simp
  have r: "consecutive_runs [0, 3, 4] = [(0, 0), (3, 4)]" by simp
  show ?thesis using range_notation_round_trip [OF h] h j r by simp
qed

lemma list_to_mask_bits:
  "list_to_mask L = Inr m \<Longrightarrow> (\<forall>c \<in> set L. 0 \<le> c) \<and> (\<forall>i. bit m i = (int i \<in> set L))"
  using ltm_loop_bits [of L 0 m] by (simp add: list_to_mask_def)

lemma CPUSpec_init_Inr:
  assumes "CPUSpec_init name str_spec cpu_list_arg mem_list_arg mask_arg nb = Inr c"
  shows "\<exists>l. (case str_spec of
               Some s \<Rightarrow> range_to_list s
             | None \<Rightarrow>
                 (case mask_arg of
                    Some m \<Rightarrow> mask_to_list m
                  | None \<Rightarrow>
                      (case cpu_list_arg of Some l \<Rightarrow> Inr l | None \<Rightarrow> Inl AssertionError))) = Inr l
          \<and> list_to_mask (sort l) = Inr (cpu_mask c) \<and> cpu_list c = sort l
          \<and> cs_name c = name \<and> mem_list c = mem_list_arg \<and> no_irqbalance c = nb"
  using assms unfolding CPUSpec_init_def bnd_def
  by (auto split: if_splits sum.splits)

text \<open>
  Claim C5, as amended. A CPUSpec is built from exactly one of the explicit list, the
  range string and the bitmask: with none or more than one, construction fails with an
  assertion error. After a successful construction the CPU list is the ascending sort
  of the source list (the given list, the expansion of the range string, or the bits
  of the mask), every CPU in it is non-negative, and bit \<open>i\<close> of the mask is set exactly
  when CPU \<open>i\<close> is in the list. Duplicates of the source are kept; from a bitmask the
  list has none.
\<close>

theorem CPUSpec_init_normalises:
  "((if str_spec = None then 1 else 0) + (if cpu_list_arg = None then 1 else 0)
       + (if mask_arg = None then 1 else 0) \<noteq> (2 :: nat)
      \<longrightarrow> CPUSpec_init name str_spec cpu_list_arg mem_list_arg mask_arg nb = Inl AssertionError)
   \<and> (CPUSpec_init name str_spec cpu_list_arg mem_list_arg mask_arg nb = Inr c
      \<longrightarrow> sorted (cpu_list c)
        \<and> (\<forall>x \<in> set (cpu_list c). 0 \<le> x)
        \<and> (\<forall>i. bit (cpu_mask c) i = (int i \<in> set (cpu_list c)))
        \<and> (\<forall>l. cpu_list_arg = Some l \<longrightarrow> cpu_list c = sort l)
        \<and> (\<forall>s. str_spec = Some s \<longrightarrow> (\<exists>l. range_to_list s = Inr l \<and> cpu_list c = sort l))
        \<and> (\<forall>m. mask_arg = Some m \<longrightarrow> mask_to_list m = Inr (cpu_list c) \<and> distinct (cpu_list c)))"
proof (intro conjI impI)
  assume "(if str_spec = None then 1 else 0) + (if cpu_list_arg = None then 1 else 0)
       + (if mask_arg = None then 1 else 0) \<noteq> (2 :: nat)"
  then show "CPUSpec_init name str_spec cpu_list_arg mem_list_arg mask_arg nb = Inl AssertionError"
    unfolding CPUSpec_init_def by simp
next
  assume a: "CPUSpec_init name str_spec cpu_list_arg mem_list_arg mask_arg nb = Inr c"
  have one: "(if str_spec = None then 1 else 0) + (if cpu_list_arg = None then 1 else 0)
       + (if mask_arg = None then 1 else 0) = (2 :: nat)"
    using a unfolding CPUSpec_init_def by (simp split: if_splits)
  from CPUSpec_init_Inr [OF a] obtain l where
    src: "(case str_spec of
               Some s \<Rightarrow> range_to_list s
             | None \<Rightarrow>
                 (case mask_arg of
                    Some m \<Rightarrow> mask_to_list m
                  | None \<Rightarrow>
                      (case cpu_list_arg of Some l \<Rightarrow> Inr l | None \<Rightarrow> Inl AssertionError))) = Inr l"
    and msk: "list_to_mask (sort l) = Inr (cpu_mask c)" and cl: "cpu_list c = sort l"
    by blast
  show "sorted (cpu_list c)" using cl by simp
  show "\<forall>x \<in> set (cpu_list c). 0 \<le> x" using list_to_mask_bits [OF msk] cl by simp
  show "\<forall>i. bit (cpu_mask c) i = (int i \<in> set (cpu_list c))"
    using list_to_mask_bits [OF msk] cl by simp
  show "\<forall>l. cpu_list_arg = Some l \<longrightarrow> cpu_list c = sort l"
    using src cl one by (auto split: option.splits if_splits)
  show "\<forall>s. str_spec = Some s \<longrightarrow> (\<exists>l. range_to_list s = Inr l \<and> cpu_list c = sort l)"
    using src cl by auto
  show "\<forall>m. mask_arg = Some m \<longrightarrow> mask_to_list m = Inr (cpu_list c) \<and> distinct (cpu_list c)"
  proof (intro allI impI)
    fix m assume m: "mask_arg = Some m"
    then have "str_spec = None" using one by (auto split: if_splits)
    then have ml: "mask_to_list m = Inr l" using src m by simp
    then have "sorted l" "distinct l" using mask_to_list_sorted by blast+
    then show "mask_to_list m = Inr (cpu_list c) \<and> distinct (cpu_list c)"
      using cl ml by (simp add: sort_key_id_if_sorted)
  qed
qed

theorem CPUSpec_init_normalises_witness:
  "CPUSpec_init ''rt'' None (Some [3, 1, 1]) None None False =
     Inr \<lparr>cs_name = ''rt'', cpu_list = [1, 1, 3], cpu_mask = 10, mem_list = None, no_irqbalance = False\<rparr>
   \<and> sorted [1, 1, 3 :: int] \<and> bit (10 :: int) (3 :: nat) \<and> \<not> bit (10 :: int) (2 :: nat)
   \<and> CPUSpec_init ''rt'' (Some ''1'') (Some [1]) None None False = Inl AssertionError
   \<and> CPUSpec_init ''rt'' None None None None False = Inl AssertionError"
proof -
  have e: "CPUSpec_init ''rt'' None (Some [3, 1, 1]) None None False =
     Inr \<lparr>cs_name = ''rt'', cpu_list = [1, 1, 3], cpu_mask = 10, mem_list = None, no_irqbalance = False\<rparr>"
    by code_simp
  have f1: "CPUSpec_init ''rt'' (Some ''1'') (Some [1]) None None False = Inl AssertionError"
    using CPUSpec_init_normalises [of "Some ''1''" "Some [1]" None "''rt''" None False] by simp
  have f2: "CPUSpec_init ''rt'' None None None None False = Inl AssertionError"
    using CPUSpec_init_normalises [of None None None "''rt''" None False] by simp
  have "sorted [1, 1, 3 :: int] \<and> bit (10 :: int) (3 :: nat) \<and> \<not> bit (10 :: int) (2 :: nat)"
    using CPUSpec_init_normalises [of None "Some [3, 1, 1]" None "''rt''" None False
        "\<lparr>cs_name = ''rt'', cpu_list = [1, 1, 3], cpu_mask = 10, mem_list = None, no_irqbalance = False\<rparr>"] e
    by simp
  then show ?thesis using e f1 f2 by simp
qed

text \<open>
  Claim C5 as stated fails: the constructor sorts and never removes duplicates, so the
  list \<open>[1, 1]\<close> and the overlapping range string \<open>0-2,1-3\<close> both give a CPU list with
  duplicates.
\<close>

theorem CPUSpec_init_duplicates_counterexample:
  "CPUSpec_init ''rt'' None (Some [1, 1]) None None False =
     Inr \<lparr>cs_name = ''rt'', cpu_list = [1, 1], cpu_mask = 2, mem_list = None, no_irqbalance = False\<rparr>
   \<and> \<not> distinct [1, 1 :: int]
   \<and> CPUSpec_init ''rt'' (Some ''0-2,1-3'') None None None False =
     Inr \<lparr>cs_name = ''rt'', cpu_list = [0, 1, 1, 2, 2, 3], cpu_mask = 15, mem_list = None, no_irqbalance = False\<rparr>
   \<and> \<not> distinct [0, 1, 1, 2, 2, 3 :: int]"
proof -
  have 1: "CPUSpec_init ''rt'' None (Some [1, 1]) None None False =
     Inr \<lparr>cs_name = ''rt'', cpu_list = [1, 1], cpu_mask = 2, mem_list = None, no_irqbalance = False\<rparr>"
    by code_simp
  have 2: "CPUSpec_init ''rt'' (Some ''0-2,1-3'') None None None False =
     Inr \<lparr>cs_name = ''rt'', cpu_list = [0, 1, 1, 2, 2, 3], cpu_mask = 15, mem_list = None, no_irqbalance = False\<rparr>"
    by code_simp
  show ?thesis using 1 2 by simp
qed

section \<open>Verification: what every operation preserves\<close>

lemma inv_ret: "inv P (ret x)"
  by (simp add: inv_def ret_def)

lemma inv_raise: "inv P (raise e)"
  by (simp add: inv_def raise_def)

lemma inv_lift: "inv P (lift r)"
  by (simp add: inv_def lift_def)

lemma inv_get_irq: "inv P (get_irq a)"
  by (simp add: inv_def get_irq_def)

lemma inv_get_kt: "inv P (get_kt t)"
  by (simp add: inv_def get_kt_def)

lemma inv_seq: "inv P m \<Longrightarrow> (\<And>x. inv P (f x)) \<Longrightarrow> inv P (seq m f)"
proof -
  assume m: "inv P m" and f: "\<And>x. inv P (f x)"
  show "inv P (seq m f)"
    unfolding inv_def
  proof (intro allI impI)
    fix w r w' assume p: "P w" and e: "seq m f w = (r, w')"
    obtain r1 w1 where m1: "m w = (r1, w1)" by (cases "m w")
    have p1: "P w1" using m p m1 unfolding inv_def by blast
    show "P w'"
    proof (cases r1)
      case (Inl err)
      then show ?thesis using e m1 p1 by (simp add: seq_def)
    next
      case (Inr x)
      then have "f x w1 = (r, w')" using e m1 by (simp add: seq_def)
      then show ?thesis using f [of x] p1 unfolding inv_def by blast
    qed
  qed
qed

lemma inv_catch: "inv P m \<Longrightarrow> inv P h \<Longrightarrow> inv P (catch_OSError m h)"
proof -
  assume m: "inv P m" and h: "inv P h"
  show "inv P (catch_OSError m h)"
    unfolding inv_def
  proof (intro allI impI)
    fix w r w' assume p: "P w" and e: "catch_OSError m h w = (r, w')"
    obtain r1 w1 where m1: "m w = (r1, w1)" by (cases "m w")
    have p1: "P w1" using m p m1 unfolding inv_def by blast
    show "P w'"
    proof (cases r1)
      case (Inl err)
      show ?thesis
      proof (cases "is_OSError err")
        case True
        then have "h w1 = (r, w')" using e m1 Inl by (simp add: catch_OSError_def)
        then show ?thesis using h p1 unfolding inv_def by blast
      next
        case False
        then show ?thesis using e m1 Inl p1 by (simp add: catch_OSError_def)
      qed
    next
      case (Inr x)
      then show ?thesis using e m1 p1 by (simp add: catch_OSError_def)
    qed
  qed
qed

lemma inv_if: "(c \<Longrightarrow> inv P m) \<Longrightarrow> (\<not> c \<Longrightarrow> inv P m') \<Longrightarrow> inv P (if c then m else m')"
  by simp

lemma inv_option: "inv P m \<Longrightarrow> (\<And>y. inv P (f y)) \<Longrightarrow> inv P (case x of None \<Rightarrow> m | Some y \<Rightarrow> f y)"
  by (cases x) simp_all

lemma inv_sum: "(\<And>e. inv P (f e)) \<Longrightarrow> (\<And>y. inv P (g y)) \<Longrightarrow> inv P (case x of Inl e \<Rightarrow> f e | Inr y \<Rightarrow> g y)"
  by (cases x) simp_all

lemma inv_list: "inv P m \<Longrightarrow> (\<And>y ys. inv P (f y ys)) \<Longrightarrow> inv P (case x of [] \<Rightarrow> m | y # ys \<Rightarrow> f y ys)"
  by (cases x) simp_all

lemma inv_prod: "(\<And>a b. inv P (f a b)) \<Longrightarrow> inv P (case x of (a, b) \<Rightarrow> f a b)"
  by (cases x) simp_all

lemma inv_let: "inv P (f x) \<Longrightarrow> inv P (Let x f)"
  by simp

lemma inv_root: "inv P m \<Longrightarrow> inv P (root_decorator E m)"
  by (simp add: root_decorator_def inv_raise)

lemma inv_emit: "(\<And>w. P w \<Longrightarrow> P (w\<lparr>trace := trace w @ [ev]\<rparr>)) \<Longrightarrow> inv P (emit ev)"
  by (auto simp: inv_def emit_def)

lemma inv_kcall: "(\<And>w k. P w \<Longrightarrow> P (w\<lparr>kern := k\<rparr>)) \<Longrightarrow> inv P (kcall op)"
  by (auto simp: inv_def kcall_def split: prod.splits)

lemma inv_upd_irq:
  "(\<And>w. P w \<Longrightarrow> P (w\<lparr>irqs := (irqs w)(a := f (irqs w a))\<rparr>)) \<Longrightarrow> inv P (upd_irq a f)"
  by (auto simp: inv_def upd_irq_def)

lemma inv_upd_kt:
  "(\<And>w. P w \<Longrightarrow> P (w\<lparr>kthreads := (kthreads w)(t := f (kthreads w t))\<rparr>)) \<Longrightarrow> inv P (upd_kt t f)"
  by (auto simp: inv_def upd_kt_def)

lemmas inv_structure =
  inv_ret inv_raise inv_lift inv_get_irq inv_get_kt inv_seq inv_catch inv_if inv_option
  inv_sum inv_list inv_prod inv_let inv_root

lemma evolves_refl: "evolves w w"
  by (simp add: evolves_def)

lemma evolves_trace: "evolves w0 w \<Longrightarrow> evolves w0 (w\<lparr>trace := trace w @ [ev]\<rparr>)"
  by (auto simp: evolves_def)

lemma evolves_kern: "evolves w0 w \<Longrightarrow> evolves w0 (w\<lparr>kern := k\<rparr>)"
  by (auto simp: evolves_def)

lemma evolves_irq:
  "evolves w0 w \<Longrightarrow>
   (was_pinned_successfully_once (irqs w a) \<longrightarrow> was_pinned_successfully_once x) \<Longrightarrow>
   evolves w0 (w\<lparr>irqs := (irqs w)(a := x)\<rparr>)"
  by (auto simp: evolves_def)

lemma evolves_kt:
  "evolves w0 w \<Longrightarrow>
   (was_cset_successfully_once (kthreads w t) \<longrightarrow> was_cset_successfully_once x) \<Longrightarrow>
   (\<not> alive_flag (kthreads w t) \<longrightarrow> \<not> alive_flag x) \<Longrightarrow>
   evolves w0 (w\<lparr>kthreads := (kthreads w)(t := x)\<rparr>)"
  by (auto simp: evolves_def)

lemma ev_emit: "inv (evolves w0) (emit ev)"
  by (rule inv_emit) (rule evolves_trace)

lemma ev_kcall: "inv (evolves w0) (kcall op)"
  by (rule inv_kcall) (rule evolves_kern)

lemmas evolves_steps = ev_emit ev_kcall

lemma ev_upd_irq:
  "(\<And>x. was_pinned_successfully_once x \<longrightarrow> was_pinned_successfully_once (f x)) \<Longrightarrow>
   inv (evolves w0) (upd_irq a f)"
  by (rule inv_upd_irq) (simp add: evolves_irq)

lemma ev_upd_kt:
  "(\<And>x. (was_cset_successfully_once x \<longrightarrow> was_cset_successfully_once (f x))
        \<and> (\<not> alive_flag x \<longrightarrow> \<not> alive_flag (f x))) \<Longrightarrow>
   inv (evolves w0) (upd_kt t f)"
  by (rule inv_upd_kt) (simp add: evolves_kt)

lemmas ev_rules = inv_structure evolves_steps ev_upd_irq ev_upd_kt

lemma ev_tl_procfs_write: "inv (evolves w0) (tl_procfs_write E file content)"
  unfolding tl_procfs_write_def by (intro ev_rules) 

lemma ev_tl_procfs_read: "inv (evolves w0) (tl_procfs_read E file)"
  unfolding tl_procfs_read_def by (intro ev_rules)

lemma ev_cset_proc_call: "inv (evolves w0) (cset_proc_call E args)"
  unfolding cset_proc_call_def by (intro ev_rules)

lemma ev_IRQ_procfs_read: "inv (evolves w0) (IRQ_procfs_read E a file)"
  unfolding IRQ_procfs_read_def by (intro ev_rules ev_tl_procfs_read)

lemma ev_IRQ_procfs_write: "inv (evolves w0) (IRQ_procfs_write E a file content)"
  unfolding IRQ_procfs_write_def by (intro ev_rules ev_tl_procfs_write)

lemma ev_IRQ_refresh_contents: "inv (evolves w0) (IRQ_refresh_contents E a)"
  unfolding IRQ_refresh_contents_def by (intro ev_rules ev_IRQ_procfs_read) simp_all

lemma ev_IRQ_repr: "inv (evolves w0) (IRQ_repr a)"
  unfolding IRQ_repr_def by (intro ev_rules) simp_all

lemma ev_update_counts: "inv (evolves w0) (update_counts E a time_now cs)"
  unfolding update_counts_def by (intro ev_rules) simp_all

lemma ev_register_pci_device: "inv (evolves w0) (register_pci_device a dev)"
  unfolding register_pci_device_def by (intro ev_rules ev_IRQ_repr) simp_all

lemma ev_register_kthread: "inv (evolves w0) (register_kthread a t)"
  unfolding register_kthread_def by (intro ev_rules ev_IRQ_repr) simp_all

lemma ev_get_pin_to_cpu: "inv (evolves w0) (get_pin_to_cpu E a)"
  unfolding get_pin_to_cpu_def by (intro ev_rules ev_IRQ_refresh_contents) simp_all

lemma ev_pin_target: "inv (evolves w0) (pin_target E self l b)"
  unfolding pin_target_def by (intro ev_rules)

lemma ev_pin_write: "inv (evolves w0) (pin_write E a l eff)"
  unfolding pin_write_def by (intro ev_rules ev_IRQ_procfs_write) simp_all

lemma ev_pin_verify: "inv (evolves w0) (pin_verify E a eff)"
  unfolding pin_verify_def by (intro ev_rules ev_get_pin_to_cpu) simp_all

lemma ev_set_pin_to_cpu: "inv (evolves w0) (set_pin_to_cpu E a l b)"
  unfolding set_pin_to_cpu_def by (intro ev_rules ev_pin_target ev_pin_write ev_pin_verify)

lemma ev_KThread_procfs_read: "inv (evolves w0) (KThread_procfs_read E t file)"
  unfolding KThread_procfs_read_def by (intro ev_rules ev_tl_procfs_read)

lemma ev_alive: "inv (evolves w0) (alive E t)"
  unfolding alive_def by (intro ev_rules) simp_all

lemma ev_KThread_refresh_contents: "inv (evolves w0) (KThread_refresh_contents E t)"
  unfolding KThread_refresh_contents_def by (intro ev_rules ev_KThread_procfs_read) simp_all

lemma ev_register_interrupt: "inv (evolves w0) (register_interrupt t a)"
  unfolding register_interrupt_def by (intro ev_rules) simp_all

lemma ev_get_taskset: "inv (evolves w0) (get_taskset E t)"
  unfolding get_taskset_def by (intro ev_rules) simp_all

lemma ev_pin_taskset: "inv (evolves w0) (pin_taskset E t ts)"
  unfolding pin_taskset_def by (intro ev_rules)

lemma ev_pin_cset: "inv (evolves w0) (pin_cset E t cs)"
  unfolding pin_cset_def
  by (intro ev_rules ev_cset_proc_call ev_pin_taskset ev_KThread_refresh_contents ev_get_taskset)
    simp_all

lemma ev_chrt_ff: "inv (evolves w0) (chrt_ff E t p)"
  unfolding chrt_ff_def by (intro ev_rules)

lemma ev_chrt_oth: "inv (evolves w0) (chrt_oth E t)"
  unfolding chrt_oth_def by (intro ev_rules)

lemma ev_update_loop: "inv (evolves w0) (update_loop E time_now data as)"
  by (induction as) (auto intro!: ev_rules ev_update_counts)

lemma ev_update_from_proc_interrupts: "inv (evolves w0) (update_from_proc_interrupts E as)"
  unfolding update_from_proc_interrupts_def
  by (intro ev_rules ev_tl_procfs_read ev_update_loop)

lemma ev_attach_pci: "inv (evolves w0) (attach_pci rl as)"
  by (induction as) (auto intro!: ev_rules ev_register_pci_device)

lemma ev_match_irq_and_pci: "inv (evolves w0) (match_irq_and_pci as devs)"
  unfolding match_irq_and_pci_def by (rule ev_attach_pci)

lemma ev_attach_kthread: "inv (evolves w0) (attach_kthread rl as)"
  by (induction as) (auto intro!: ev_rules ev_register_kthread ev_register_interrupt)

lemma ev_match_kthread_and_irq: "inv (evolves w0) (match_kthread_and_irq as ts)"
  using ev_attach_kthread unfolding inv_def match_kthread_and_irq_def by blast

lemma ev_EDTObject_init: "inv (evolves w0) (EDTObject_init i k)"
  unfolding EDTObject_init_def by (intro ev_rules)

lemma ev_bind_to_cset: "inv (evolves w0) (bind_to_cset E self cs prio)"
  unfolding bind_to_cset_def
  by (intro ev_rules ev_set_pin_to_cpu ev_pin_cset ev_chrt_ff ev_get_pin_to_cpu ev_get_taskset)

section \<open>Verification: the sampler\<close>









lemma update_counts_frame:
  "update_counts E b t cs w = (r, w') \<Longrightarrow>
   (\<forall>a. a \<noteq> b \<longrightarrow> irqs w' a = irqs w a) \<and> irq_id (irqs w' b) = irq_id (irqs w b)
   \<and> kthreads w' = kthreads w \<and> kern w' = kern w \<and> trace w' = trace w"
  by (auto simp: update_counts_def seq_def get_irq_def lift_def upd_irq_def raise_def
      split: if_splits sum.splits)

lemma data_lookup_name: "data_lookup data n = Some row \<Longrightarrow> n \<in> fst ` set data"
  unfolding data_lookup_def by (metis map_of_SomeD set_rev image_eqI fst_conv)

lemma update_loop_absent:
  "update_loop E t data as w = (r, w') \<Longrightarrow>
   py_str (irq_id (irqs w a)) \<notin> fst ` set data \<Longrightarrow> irqs w' a = irqs w a"
proof (induction as arbitrary: w)
  case Nil
  then show ?case by (simp add: ret_def)
next
  case (Cons b as)
  show ?case
  proof (cases "data_lookup data (py_str (irq_id (irqs w b)))")
    case None
    then have "update_loop E t data as w = (r, w')"
      using Cons.prems(1) by (simp add: seq_def get_irq_def)
    then show ?thesis using Cons.IH Cons.prems(2) by blast
  next
    case (Some row)
    then have ne: "a \<noteq> b" using Cons.prems(2) data_lookup_name by fastforce
    obtain r1 w1 where u: "update_counts E b t (oi_counts row) w = (r1, w1)"
      by (cases "update_counts E b t (oi_counts row) w")
    have same: "irqs w1 a = irqs w a" using update_counts_frame [OF u] ne by simp
    show ?thesis
    proof (cases r1)
      case (Inl e)
      then have "w' = w1" using Cons.prems(1) Some u by (simp add: seq_def get_irq_def)
      then show ?thesis using same by simp
    next
      case (Inr x)
      then have "update_loop E t data as w1 = (r, w')"
        using Cons.prems(1) Some u by (simp add: seq_def get_irq_def)
      then have "irqs w' a = irqs w1 a" using Cons.IH same Cons.prems(2) by simp
      then show ?thesis using same by simp
    qed
  qed
qed

lemma update_loop_untracked:
  "update_loop E t data as w = (r, w') \<Longrightarrow>
   (\<forall>a. a \<notin> set as \<longrightarrow> irqs w' a = irqs w a) \<and> kthreads w' = kthreads w
   \<and> (\<forall>a. irq_id (irqs w' a) = irq_id (irqs w a))"
proof (induction as arbitrary: w)
  case Nil
  then show ?case by (simp add: ret_def)
next
  case (Cons b as)
  show ?case
  proof (cases "data_lookup data (py_str (irq_id (irqs w b)))")
    case None
    then have "update_loop E t data as w = (r, w')"
      using Cons.prems(1) by (simp add: seq_def get_irq_def)
    then show ?thesis using Cons.IH by auto
  next
    case (Some row)
    obtain r1 w1 where u: "update_counts E b t (oi_counts row) w = (r1, w1)"
      by (cases "update_counts E b t (oi_counts row) w")
    note fr = update_counts_frame [OF u]
    have ids: "\<forall>a. irq_id (irqs w1 a) = irq_id (irqs w a)"
      using fr by (metis)
    show ?thesis
    proof (cases r1)
      case (Inl e)
      then have "w' = w1" using Cons.prems(1) Some u by (simp add: seq_def get_irq_def)
      then show ?thesis using fr ids by auto
    next
      case (Inr x)
      then have "update_loop E t data as w1 = (r, w')"
        using Cons.prems(1) Some u by (simp add: seq_def get_irq_def)
      from Cons.IH [OF this] show ?thesis using fr ids by auto
    qed
  qed
qed

lemma update_loop_rows_agree:
  "\<forall>a \<in> set as. data_lookup data1 (py_str (irq_id (irqs w a)))
               = data_lookup data2 (py_str (irq_id (irqs w a))) \<Longrightarrow>
   update_loop E t data1 as w = update_loop E t data2 as w"
proof (induction as arbitrary: w)
  case Nil
  then show ?case by simp
next
  case (Cons b as)
  have hd: "data_lookup data1 (py_str (irq_id (irqs w b))) = data_lookup data2 (py_str (irq_id (irqs w b)))"
    using Cons.prems by simp
  show ?case
  proof (cases "data_lookup data2 (py_str (irq_id (irqs w b)))")
    case None
    then show ?thesis using hd Cons by (simp add: seq_def get_irq_def)
  next
    case (Some row)
    obtain r1 w1 where u: "update_counts E b t (oi_counts row) w = (r1, w1)"
      by (cases "update_counts E b t (oi_counts row) w")
    have ids: "\<forall>a. irq_id (irqs w1 a) = irq_id (irqs w a)"
      using update_counts_frame [OF u] by metis
    have "update_loop E t data1 as w1 = update_loop E t data2 as w1"
      using Cons.prems ids by (intro Cons.IH) simp
    then show ?thesis using hd Some u by (simp add: seq_def get_irq_def split: sum.splits)
  qed
qed

lemma update_from_proc_interrupts_cases:
  assumes "update_from_proc_interrupts E as w = (r, w')"
  shows "(irqs w' = irqs w \<and> kthreads w' = kthreads w)
       \<or> (\<exists>t data w1. irqs w1 = irqs w \<and> kthreads w1 = kthreads w
             \<and> fst ` set data = snapshot_names E w
             \<and> update_loop E t data as w1 = (r, w'))"
proof -
  obtain t k1 where kt: "k_time E (kern w) = (t, k1)" by (cases "k_time E (kern w)")
  let ?w1 = "w\<lparr>kern := k1\<rparr>"
  obtain c k2 where kr: "k_read E ''/proc/interrupts'' k1 = (c, k2)"
    by (cases "k_read E ''/proc/interrupts'' k1")
  let ?w2 = "?w1\<lparr>kern := k2\<rparr>"
  have rd: "tl_procfs_read E ''/proc/interrupts'' ?w1
            = (bnd c (\<lambda>content. Inr (map py_rstrip content)), ?w2)"
    using kr by (simp add: tl_procfs_read_def seq_def kcall_def lift_def)
  have tm: "kcall (k_time E) w = (Inr t, ?w1)" using kt by (simp add: kcall_def)
  show ?thesis
  proof (cases "bnd c (\<lambda>content. Inr (map py_rstrip content))")
    case (Inl e)
    then have "w' = ?w2" using assms tm rd
      by (simp add: update_from_proc_interrupts_def seq_def)
    then show ?thesis by simp
  next
    case (Inr content)
    show ?thesis
    proof (cases content)
      case Nil
      then have "w' = ?w2\<lparr>trace := trace ?w2 @
          [LogRecord CRITICAL ''Invalid first line of content for /proc/interrupts'']\<rparr>"
        using assms tm rd Inr
        by (simp add: update_from_proc_interrupts_def seq_def emit_def raise_def)
      then show ?thesis by simp
    next
      case (Cons first rest)
      show ?thesis
      proof (cases "length (py_split first) < 1 \<or> take 3 (hd (py_split first)) \<noteq> ''CPU''")
        case True
        then have "w' = ?w2\<lparr>trace := trace ?w2 @
            [LogRecord CRITICAL ''Unable to determine number of CPUs in /proc/interrupts'']\<rparr>"
          using assms tm rd Inr Cons
          by (simp add: update_from_proc_interrupts_def seq_def emit_def raise_def Let_def)
        then show ?thesis by simp
      next
        case False
        show ?thesis
        proof (cases "mapE (parse_row (py_split first)) rest")
          case (Inl e)
          then have "w' = ?w2" using assms tm rd Inr Cons False
            by (simp add: update_from_proc_interrupts_def seq_def lift_def Let_def)
          then show ?thesis by simp
        next
          case data: (Inr data)
          have names: "fst ` set data = snapshot_names E w"
            using tm rd Inr Cons data by (simp add: snapshot_names_def)
          show ?thesis
          proof (cases "length data < 1")
            case True
            then have "w' = ?w2\<lparr>trace := trace ?w2 @
                [LogRecord CRITICAL ''No information in /proc/interrupts'']\<rparr>"
              using assms tm rd Inr Cons False data
              by (simp add: update_from_proc_interrupts_def seq_def emit_def raise_def lift_def Let_def)
            then show ?thesis by simp
          next
            case f2: False
            then have "update_loop E t data as ?w2 = (r, w')"
              using assms tm rd Inr Cons False data
              by (simp add: update_from_proc_interrupts_def seq_def lift_def Let_def)
            then show ?thesis using names by (intro disjI2 exI [of _ t] exI [of _ data] exI [of _ ?w2]) simp
          qed
        qed
      qed
    qed
  qed
qed

text \<open>
  Claim C8. In a sampler pass, however it ends: an IRQ object whose id is not among the
  row names of the snapshot is left exactly as it was (counts, time stamp and rates
  included); so is every IRQ object that is not in the tracked list; no kernel thread
  changes; and two tables that agree on the rows named after the tracked IRQs drive
  the update loop to the same result, so a row that matches no tracked IRQ changes
  nothing.
\<close>

theorem snapshot_pass_frame:
  assumes "update_from_proc_interrupts E as w = (r, w')"
  shows "(\<forall>a. py_str (irq_id (irqs w a)) \<notin> snapshot_names E w \<longrightarrow> irqs w' a = irqs w a)
       \<and> (\<forall>a. a \<notin> set as \<longrightarrow> irqs w' a = irqs w a)
       \<and> kthreads w' = kthreads w
       \<and> (\<forall>t data1 data2.
            (\<forall>a \<in> set as. data_lookup data1 (py_str (irq_id (irqs w a)))
                         = data_lookup data2 (py_str (irq_id (irqs w a))))
            \<longrightarrow> update_loop E t data1 as w = update_loop E t data2 as w)"
proof -
  have agree: "\<forall>t data1 data2.
            (\<forall>a \<in> set as. data_lookup data1 (py_str (irq_id (irqs w a)))
                         = data_lookup data2 (py_str (irq_id (irqs w a))))
            \<longrightarrow> update_loop E t data1 as w = update_loop E t data2 as w"
    using update_loop_rows_agree by blast
  from update_from_proc_interrupts_cases [OF assms] show ?thesis
  proof
    assume "irqs w' = irqs w \<and> kthreads w' = kthreads w"
    then show ?thesis using agree by simp
  next
    assume "\<exists>t data w1. irqs w1 = irqs w \<and> kthreads w1 = kthreads w
             \<and> fst ` set data = snapshot_names E w
             \<and> update_loop E t data as w1 = (r, w')"
    then obtain t data w1 where h: "irqs w1 = irqs w" "kthreads w1 = kthreads w"
      "fst ` set data = snapshot_names E w" "update_loop E t data as w1 = (r, w')"
      by blast
    have 1: "\<forall>a. py_str (irq_id (irqs w a)) \<notin> snapshot_names E w \<longrightarrow> irqs w' a = irqs w a"
      using update_loop_absent [OF h(4)] h(1,3) by simp
    have 2: "(\<forall>a. a \<notin> set as \<longrightarrow> irqs w' a = irqs w a) \<and> kthreads w' = kthreads w"
      using update_loop_untracked [OF h(4)] h(1,2) by simp
    show ?thesis using 1 2 agree by simp
  qed
qed

theorem snapshot_pass_frame_witness:
  "py_str (irq_id (irqs demo_tracked 1)) \<notin> snapshot_names demo_env demo_tracked
   \<and> counts (irqs (snd (update_from_proc_interrupts demo_env [0, 1] demo_tracked)) 1) = [3]
   \<and> counts_time (irqs (snd (update_from_proc_interrupts demo_env [0, 1] demo_tracked)) 1) = 4
   \<and> counts_hz (irqs (snd (update_from_proc_interrupts demo_env [0, 1] demo_tracked)) 1) = [Rate 2]
   \<and> counts (irqs (snd (update_from_proc_interrupts demo_env [0, 1] demo_tracked)) 0) = [100]"
proof -
  have h: "update_from_proc_interrupts demo_env [0, 1] demo_tracked =
        (fst (update_from_proc_interrupts demo_env [0, 1] demo_tracked),
         snd (update_from_proc_interrupts demo_env [0, 1] demo_tracked))"
    by simp
  have n: "py_str (irq_id (irqs demo_tracked 1)) \<notin> snapshot_names demo_env demo_tracked"
    by code_simp
  have same: "irqs (snd (update_from_proc_interrupts demo_env [0, 1] demo_tracked)) 1
            = irqs demo_tracked 1"
    using snapshot_pass_frame [OF h] n by blast
  have c: "counts (irqs demo_tracked 1) = [3]" "counts_time (irqs demo_tracked 1) = 4"
    "counts_hz (irqs demo_tracked 1) = [Rate 2]"
    by (simp_all add: demo_tracked_def upd_irq_def blank_IRQ_def)
  have u: "counts (irqs (snd (update_from_proc_interrupts demo_env [0, 1] demo_tracked)) 0) = [100]"
    by code_simp
  show ?thesis using n same c u by simp
qed

section \<open>Verification: correlation of IRQs and PCI devices\<close>

lemma claim_step_grows:
  "rl n = Some d0 \<Longrightarrow>
   \<exists>d. (case rl p of
           None \<Rightarrow> rl(p \<mapsto> dev)
         | Some d \<Rightarrow> if pci_addr d < pci_addr dev then rl(p \<mapsto> dev) else rl) n = Some d
       \<and> pci_addr d0 \<le> pci_addr d"
  by (cases "rl p") (auto simp: less_imp_le)

lemma claim_irqs_grows:
  "rl n = Some d0 \<Longrightarrow> \<exists>d. claim_irqs dev ns rl n = Some d \<and> pci_addr d0 \<le> pci_addr d"
proof (induction ns arbitrary: rl d0)
  case Nil
  then show ?case by simp
next
  case (Cons p ns)
  let ?rl = "case rl p of
           None \<Rightarrow> rl(p \<mapsto> dev)
         | Some d \<Rightarrow> if pci_addr d < pci_addr dev then rl(p \<mapsto> dev) else rl"
  obtain d1 where d1: "?rl n = Some d1" "pci_addr d0 \<le> pci_addr d1"
    using claim_step_grows [of rl n d0 p dev] Cons.prems by blast
  obtain d where "claim_irqs dev ns ?rl n = Some d" "pci_addr d1 \<le> pci_addr d"
    using Cons.IH [of ?rl d1] d1(1) by blast
  then show ?case using d1(2) by (auto intro: order_trans)
qed

lemma claim_irqs_claims:
  "n \<in> set ns \<Longrightarrow> \<exists>d. claim_irqs dev ns rl n = Some d \<and> pci_addr dev \<le> pci_addr d"
proof (induction ns arbitrary: rl)
  case Nil
  then show ?case by simp
next
  case (Cons p ns)
  let ?rl = "case rl p of
           None \<Rightarrow> rl(p \<mapsto> dev)
         | Some d \<Rightarrow> if pci_addr d < pci_addr dev then rl(p \<mapsto> dev) else rl"
  show ?case
  proof (cases "n = p")
    case True
    have "\<exists>d1. ?rl n = Some d1 \<and> pci_addr dev \<le> pci_addr d1"
      using True by (cases "rl p") (auto simp: not_less)
    then obtain d1 where d1: "?rl n = Some d1" "pci_addr dev \<le> pci_addr d1" by blast
    obtain d where "claim_irqs dev ns ?rl n = Some d" "pci_addr d1 \<le> pci_addr d"
      using claim_irqs_grows [of ?rl n d1 dev ns] d1(1) by blast
    then show ?thesis using d1(2) by (auto intro: order_trans)
  next
    case False
    then have "n \<in> set ns" using Cons.prems by simp
    then show ?thesis using Cons.IH by simp
  qed
qed

lemma claim_irqs_origin:
  "claim_irqs dev ns rl n = Some d \<Longrightarrow> (d = dev \<and> n \<in> set ns) \<or> rl n = Some d"
proof (induction ns arbitrary: rl)
  case Nil
  then show ?case by simp
next
  case (Cons p ns)
  let ?rl = "case rl p of
           None \<Rightarrow> rl(p \<mapsto> dev)
         | Some d \<Rightarrow> if pci_addr d < pci_addr dev then rl(p \<mapsto> dev) else rl"
  have "(d = dev \<and> n \<in> set ns) \<or> ?rl n = Some d"
    using Cons.IH [of ?rl] Cons.prems by simp
  then show ?case
    by (cases "rl p") (auto split: if_splits)
qed

lemma pci_reverse_lookup_grows:
  "rl n = Some d0 \<Longrightarrow> \<exists>d. pci_reverse_lookup devs rl n = Some d \<and> pci_addr d0 \<le> pci_addr d"
proof (induction devs arbitrary: rl d0)
  case Nil
  then show ?case by simp
next
  case (Cons dev devs)
  obtain d1 where d1: "claim_irqs dev (irq_list dev) rl n = Some d1" "pci_addr d0 \<le> pci_addr d1"
    using claim_irqs_grows [of rl n d0 dev "irq_list dev"] Cons.prems by blast
  obtain d where "pci_reverse_lookup devs (claim_irqs dev (irq_list dev) rl) n = Some d"
    "pci_addr d1 \<le> pci_addr d"
    using Cons.IH [of "claim_irqs dev (irq_list dev) rl" d1] d1(1) by blast
  then show ?case using d1(2) by (auto intro: order_trans)
qed

lemma pci_reverse_lookup_claims:
  "d' \<in> set devs \<Longrightarrow> n \<in> set (irq_list d') \<Longrightarrow>
   \<exists>d. pci_reverse_lookup devs rl n = Some d \<and> pci_addr d' \<le> pci_addr d"
proof (induction devs arbitrary: rl)
  case Nil
  then show ?case by simp
next
  case (Cons dev devs)
  show ?case
  proof (cases "d' = dev")
    case True
    obtain d1 where d1: "claim_irqs dev (irq_list dev) rl n = Some d1" "pci_addr dev \<le> pci_addr d1"
      using claim_irqs_claims [of n "irq_list dev" dev rl] Cons.prems True by blast
    obtain d where "pci_reverse_lookup devs (claim_irqs dev (irq_list dev) rl) n = Some d"
      "pci_addr d1 \<le> pci_addr d"
      using pci_reverse_lookup_grows [of "claim_irqs dev (irq_list dev) rl" n d1 devs] d1(1) by blast
    then show ?thesis using d1(2) True by (auto intro: order_trans)
  next
    case False
    then have "d' \<in> set devs" using Cons.prems by simp
    then show ?thesis using Cons.IH Cons.prems(2) by simp
  qed
qed

lemma pci_reverse_lookup_origin:
  "pci_reverse_lookup devs rl n = Some d \<Longrightarrow>
   (d \<in> set devs \<and> n \<in> set (irq_list d)) \<or> rl n = Some d"
proof (induction devs arbitrary: rl)
  case Nil
  then show ?case by simp
next
  case (Cons dev devs)
  have "(d \<in> set devs \<and> n \<in> set (irq_list d)) \<or> claim_irqs dev (irq_list dev) rl n = Some d"
    using Cons.IH Cons.prems by simp
  then show ?case using claim_irqs_origin [of dev "irq_list dev" rl n d] by auto
qed

lemma list_to_range_notation_total:
  "\<forall>c \<in> set L. 0 \<le> c \<Longrightarrow> \<exists>s. list_to_range_notation L = Inr s"
  using list_to_range_notation_runs by blast

lemma IRQ_repr_ok:
  assumes "irq_lists_ok (irqs w a)"
  shows "IRQ_repr a w =
           (Inr (), w\<lparr>irqs := (irqs w)(a := (irqs w a)
              \<lparr>smp_affinity_list := sort (smp_affinity_list (irqs w a)),
               eff_affinity_list := sort (eff_affinity_list (irqs w a))\<rparr>)\<rparr>)"
proof -
  obtain s1 where s1: "list_to_range_notation (sort (smp_affinity_list (irqs w a))) = Inr s1"
    using assms list_to_range_notation_total [of "sort (smp_affinity_list (irqs w a))"]
    by (auto simp: irq_lists_ok_def)
  obtain s2 where s2: "list_to_range_notation (sort (eff_affinity_list (irqs w a))) = Inr s2"
    using assms list_to_range_notation_total [of "sort (eff_affinity_list (irqs w a))"]
    by (auto simp: irq_lists_ok_def)
  show ?thesis using s1 s2
    by (simp add: IRQ_repr_def seq_def upd_irq_def get_irq_def lift_def ret_def)
qed

lemma register_pci_device_ok:
  assumes "irq_lists_ok (irqs w a)"
  shows "register_pci_device a dev w =
           (Inr (), w\<lparr>irqs := (irqs w)(a := (irqs w a)
              \<lparr>smp_affinity_list := sort (smp_affinity_list (irqs w a)),
               eff_affinity_list := sort (eff_affinity_list (irqs w a)),
               pci_device := Some dev, best_node := numa_node dev\<rparr>)\<rparr>)"
  using IRQ_repr_ok [OF assms]
  by (simp add: register_pci_device_def seq_def upd_irq_def)

lemma attach_pci_result:
  "\<forall>a \<in> set as. irq_lists_ok (irqs w a) \<Longrightarrow>
   \<exists>w'. attach_pci rl as w = (Inr (), w')
      \<and> (\<forall>a. irq_id (irqs w' a) = irq_id (irqs w a))
      \<and> (\<forall>a. irq_lists_ok (irqs w a) \<longrightarrow> irq_lists_ok (irqs w' a))
      \<and> (\<forall>a. a \<notin> set as \<longrightarrow> irqs w' a = irqs w a)
      \<and> (\<forall>a \<in> set as. \<forall>d. rl (irq_id (irqs w a)) = Some d \<longrightarrow>
            pci_device (irqs w' a) = Some d \<and> best_node (irqs w' a) = numa_node d)"
proof (induction as arbitrary: w)
  case Nil
  then show ?case by (simp add: ret_def)
next
  case (Cons b as)
  show ?case
  proof (cases "rl (irq_id (irqs w b))")
    case None
    have step: "attach_pci rl (b # as) w = attach_pci rl as w"
      using None by (simp add: seq_def get_irq_def)
    obtain w' where w': "attach_pci rl as w = (Inr (), w')"
      "\<forall>a. irq_id (irqs w' a) = irq_id (irqs w a)"
      "\<forall>a. irq_lists_ok (irqs w a) \<longrightarrow> irq_lists_ok (irqs w' a)"
      "\<forall>a. a \<notin> set as \<longrightarrow> irqs w' a = irqs w a"
      "\<forall>a \<in> set as. \<forall>d. rl (irq_id (irqs w a)) = Some d \<longrightarrow>
            pci_device (irqs w' a) = Some d \<and> best_node (irqs w' a) = numa_node d"
      using Cons.IH [of w] Cons.prems by auto
    show ?thesis
      using step w' None by (intro exI [of _ w']) auto
  next
    case (Some dev)
    let ?x = "(irqs w b)
              \<lparr>smp_affinity_list := sort (smp_affinity_list (irqs w b)),
               eff_affinity_list := sort (eff_affinity_list (irqs w b)),
               pci_device := Some dev, best_node := numa_node dev\<rparr>"
    let ?w1 = "w\<lparr>irqs := (irqs w)(b := ?x)\<rparr>"
    have okb: "irq_lists_ok (irqs w b)" using Cons.prems by simp
    have reg: "register_pci_device b dev w = (Inr (), ?w1)"
      using register_pci_device_ok [OF okb] by simp
    have step: "attach_pci rl (b # as) w = attach_pci rl as ?w1"
      using Some reg by (simp add: seq_def get_irq_def)
    have okx: "irq_lists_ok ?x" using okb by (simp add: irq_lists_ok_def)
    have ok1: "\<forall>a. irq_lists_ok (irqs w a) \<longrightarrow> irq_lists_ok (irqs ?w1 a)"
      using okx by simp
    have id1: "\<forall>a. irq_id (irqs ?w1 a) = irq_id (irqs w a)" by simp
    have "\<forall>a \<in> set as. irq_lists_ok (irqs ?w1 a)" using Cons.prems ok1 by simp
    from Cons.IH [OF this] obtain w' where w': "attach_pci rl as ?w1 = (Inr (), w')"
      "\<forall>a. irq_id (irqs w' a) = irq_id (irqs ?w1 a)"
      "\<forall>a. irq_lists_ok (irqs ?w1 a) \<longrightarrow> irq_lists_ok (irqs w' a)"
      "\<forall>a. a \<notin> set as \<longrightarrow> irqs w' a = irqs ?w1 a"
      "\<forall>a \<in> set as. \<forall>d. rl (irq_id (irqs ?w1 a)) = Some d \<longrightarrow>
            pci_device (irqs w' a) = Some d \<and> best_node (irqs w' a) = numa_node d"
      by blast
    have a1: "\<forall>a. irq_id (irqs w' a) = irq_id (irqs w a)" using w'(2) id1 by simp
    have a2: "\<forall>a. irq_lists_ok (irqs w a) \<longrightarrow> irq_lists_ok (irqs w' a)" using w'(3) ok1 by blast
    have a3: "\<forall>a. a \<notin> set (b # as) \<longrightarrow> irqs w' a = irqs w a" using w'(4) by simp
    have a4: "\<forall>a \<in> set (b # as). \<forall>d. rl (irq_id (irqs w a)) = Some d \<longrightarrow>
            pci_device (irqs w' a) = Some d \<and> best_node (irqs w' a) = numa_node d"
    proof (intro ballI allI impI)
      fix a d assume a: "a \<in> set (b # as)" and d: "rl (irq_id (irqs w a)) = Some d"
      show "pci_device (irqs w' a) = Some d \<and> best_node (irqs w' a) = numa_node d"
      proof (cases "a \<in> set as")
        case True
        then show ?thesis using w'(5) d id1 by simp
      next
        case False
        then have ab: "a = b" using a by simp
        then have "irqs w' a = ?x" using w'(4) False by simp
        moreover have "d = dev" using d Some ab by simp
        ultimately show ?thesis by simp
      qed
    qed
    show ?thesis using step w'(1) a1 a2 a3 a4 by (intro exI [of _ w']) simp
  qed
qed

text \<open>
  Claim C4. On IRQ objects whose affinity lists hold CPU numbers (so that formatting
  them for the log cannot fail), \<^verbatim>\<open>match_irq_and_pci\<close> returns normally, and every
  tracked IRQ whose number is claimed by at least one device of the list ends up
  attached to a device of the list that claims it and whose bus address is greater
  than or equal to the address of every device claiming it, with that device's NUMA
  node as its preferred node.
\<close>

theorem match_irq_and_pci_greatest_address:
  assumes "\<forall>a \<in> set irq_addrs. irq_lists_ok (irqs w a)"
  shows "fst (match_irq_and_pci irq_addrs devs w) = Inr ()
       \<and> (\<forall>a \<in> set irq_addrs. \<forall>d0 \<in> set devs. irq_id (irqs w a) \<in> set (irq_list d0) \<longrightarrow>
            (\<exists>d \<in> set devs.
               pci_device (irqs (snd (match_irq_and_pci irq_addrs devs w)) a) = Some d
             \<and> best_node (irqs (snd (match_irq_and_pci irq_addrs devs w)) a) = numa_node d
             \<and> irq_id (irqs w a) \<in> set (irq_list d)
             \<and> (\<forall>d' \<in> set devs. irq_id (irqs w a) \<in> set (irq_list d')
                    \<longrightarrow> pci_addr d' \<le> pci_addr d)))"
proof -
  let ?rl = "pci_reverse_lookup devs Map.empty"
  obtain w' where w': "attach_pci ?rl irq_addrs w = (Inr (), w')"
    "\<forall>a \<in> set irq_addrs. \<forall>d. ?rl (irq_id (irqs w a)) = Some d \<longrightarrow>
            pci_device (irqs w' a) = Some d \<and> best_node (irqs w' a) = numa_node d"
    using attach_pci_result [OF assms, of ?rl] by blast
  have m: "match_irq_and_pci irq_addrs devs w = (Inr (), w')"
    using w'(1) by (simp add: match_irq_and_pci_def)
  have "\<forall>a \<in> set irq_addrs. \<forall>d0 \<in> set devs. irq_id (irqs w a) \<in> set (irq_list d0) \<longrightarrow>
            (\<exists>d \<in> set devs.
               pci_device (irqs w' a) = Some d
             \<and> best_node (irqs w' a) = numa_node d
             \<and> irq_id (irqs w a) \<in> set (irq_list d)
             \<and> (\<forall>d' \<in> set devs. irq_id (irqs w a) \<in> set (irq_list d')
                    \<longrightarrow> pci_addr d' \<le> pci_addr d))"
  proof (intro ballI impI)
    fix a d0 assume a: "a \<in> set irq_addrs" and d0: "d0 \<in> set devs"
      and c: "irq_id (irqs w a) \<in> set (irq_list d0)"
    let ?n = "irq_id (irqs w a)"
    obtain d where d: "?rl ?n = Some d"
      using pci_reverse_lookup_claims [OF d0 c, of Map.empty] by blast
    have org: "d \<in> set devs \<and> ?n \<in> set (irq_list d)"
      using pci_reverse_lookup_origin [OF d] by simp
    have mx: "\<forall>d' \<in> set devs. ?n \<in> set (irq_list d') \<longrightarrow> pci_addr d' \<le> pci_addr d"
    proof (intro ballI impI)
      fix d' assume "d' \<in> set devs" "?n \<in> set (irq_list d')"
      then obtain d2 where "?rl ?n = Some d2" "pci_addr d' \<le> pci_addr d2"
        using pci_reverse_lookup_claims [of d' devs ?n Map.empty] by blast
      then show "pci_addr d' \<le> pci_addr d" using d by simp
    qed
    show "\<exists>d \<in> set devs.
               pci_device (irqs w' a) = Some d
             \<and> best_node (irqs w' a) = numa_node d
             \<and> ?n \<in> set (irq_list d)
             \<and> (\<forall>d' \<in> set devs. ?n \<in> set (irq_list d') \<longrightarrow> pci_addr d' \<le> pci_addr d)"
      using w'(2) a d org mx by (intro bexI [of _ d]) auto
  qed
  then show ?thesis using m by simp
qed

theorem match_irq_and_pci_greatest_address_witness:
  "irq_lists_ok (irqs demo_irq42 0)
   \<and> fst (match_irq_and_pci [0] demo_devs demo_irq42) = Inr ()
   \<and> map_option pci_addr (pci_device (irqs (snd (match_irq_and_pci [0] demo_devs demo_irq42)) 0))
       = Some ''0000:02:00.0''
   \<and> map_option pci_addr
       (pci_device (irqs (snd (match_irq_and_pci [0] (rev demo_devs) demo_irq42)) 0))
       = Some ''0000:02:00.0''
   \<and> best_node (irqs (snd (match_irq_and_pci [0] demo_devs demo_irq42)) 0) = 1"
proof -
  have ok: "\<forall>a \<in> set [0]. irq_lists_ok (irqs demo_irq42 a)"
    by (simp add: irq_lists_ok_def demo_irq42_def upd_irq_def blank_IRQ_def)
  have r: "fst (match_irq_and_pci [0] demo_devs demo_irq42) = Inr ()"
    using match_irq_and_pci_greatest_address [OF ok, of demo_devs] by simp
  have 1: "map_option pci_addr (pci_device (irqs (snd (match_irq_and_pci [0] demo_devs demo_irq42)) 0))
       = Some ''0000:02:00.0''"
    by code_simp
  have 2: "map_option pci_addr
       (pci_device (irqs (snd (match_irq_and_pci [0] (rev demo_devs) demo_irq42)) 0))
       = Some ''0000:02:00.0''"
    by code_simp
  have 3: "best_node (irqs (snd (match_irq_and_pci [0] demo_devs demo_irq42)) 0) = 1"
    by code_simp
  show ?thesis using ok r 1 2 3 by simp
qed

section \<open>Verification: the device bundle\<close>

lemma EDTObject_init_from_irq:
  "EDTObject_init (Some a) kt w =
     (case kthread (irqs w a) of
        None \<Rightarrow> (Inl AssertionError, w)
      | Some t \<Rightarrow>
          (case pci_device (irqs w a) of
             None \<Rightarrow> (Inl AssertionError, w)
           | Some dev \<Rightarrow>
               (Inr \<lparr>edt_irq = a, edt_kthread = t, edt_pci_device = dev\<rparr>,
                w\<lparr>trace := trace w @ [LogRecord WARNING ''EDTObject::__init__ - bound together'']\<rparr>)))"
  by (simp add: EDTObject_init_def seq_def get_irq_def raise_def ret_def emit_def
      split: option.splits)

lemma EDTObject_init_from_kthread:
  "EDTObject_init None (Some t) w =
     (case irq_obj (kthreads w t) of
        None \<Rightarrow> (Inl AssertionError, w)
      | Some a \<Rightarrow>
          (case pci_device (irqs w a) of
             None \<Rightarrow> (Inl AssertionError, w)
           | Some dev \<Rightarrow>
               (Inr \<lparr>edt_irq = a, edt_kthread = t, edt_pci_device = dev\<rparr>,
                w\<lparr>trace := trace w @ [LogRecord WARNING ''EDTObject::__init__ - bound together'']\<rparr>)))"
  by (simp add: EDTObject_init_def seq_def get_irq_def get_kt_def raise_def ret_def emit_def
      split: option.splits)

lemma EDTObject_init_neither: "EDTObject_init None None w = (Inl ValueError, w)"
  by (simp add: EDTObject_init_def seq_def raise_def)

text \<open>
  Claim C7, as amended. A DeviceBundle is built exactly when the entity it is built from
  refers to its partner (the IRQ to a kernel thread, or, when no IRQ is given, the
  kernel thread to an IRQ) and that IRQ refers to a PCI device; the bundle is then the
  IRQ, that partner and that device. Construction fails with an assertion error when
  one of these two references is missing and with a value error when neither entity
  is given. The reference back from the partner is not looked at.
\<close>

theorem EDTObject_init_needs_forward_references:
  "(fst (EDTObject_init (Some a) kt w) =
      (case (kthread (irqs w a), pci_device (irqs w a)) of
         (Some t, Some dev) \<Rightarrow> Inr \<lparr>edt_irq = a, edt_kthread = t, edt_pci_device = dev\<rparr>
       | _ \<Rightarrow> Inl AssertionError))
   \<and> (fst (EDTObject_init None (Some t) w) =
      (case irq_obj (kthreads w t) of
         None \<Rightarrow> Inl AssertionError
       | Some a' \<Rightarrow>
           (case pci_device (irqs w a') of
              None \<Rightarrow> Inl AssertionError
            | Some dev \<Rightarrow> Inr \<lparr>edt_irq = a', edt_kthread = t, edt_pci_device = dev\<rparr>)))
   \<and> fst (EDTObject_init None None w) = Inl ValueError
   \<and> irqs (snd (EDTObject_init i k w)) = irqs w
   \<and> kthreads (snd (EDTObject_init i k w)) = kthreads w"
proof -
  have 1: "fst (EDTObject_init (Some a) kt w) =
      (case (kthread (irqs w a), pci_device (irqs w a)) of
         (Some t, Some dev) \<Rightarrow> Inr \<lparr>edt_irq = a, edt_kthread = t, edt_pci_device = dev\<rparr>
       | _ \<Rightarrow> Inl AssertionError)"
    by (simp add: EDTObject_init_from_irq split: option.splits)
  have 2: "fst (EDTObject_init None (Some t) w) =
      (case irq_obj (kthreads w t) of
         None \<Rightarrow> Inl AssertionError
       | Some a' \<Rightarrow>
           (case pci_device (irqs w a') of
              None \<Rightarrow> Inl AssertionError
            | Some dev \<Rightarrow> Inr \<lparr>edt_irq = a', edt_kthread = t, edt_pci_device = dev\<rparr>))"
    by (simp add: EDTObject_init_from_kthread split: option.splits)
  have 3: "fst (EDTObject_init None None w) = Inl ValueError"
    by (simp add: EDTObject_init_neither)
  have 4: "irqs (snd (EDTObject_init i k w)) = irqs w \<and> kthreads (snd (EDTObject_init i k w)) = kthreads w"
  proof (cases i)
    case None
    then show ?thesis
      by (cases k) (simp_all add: EDTObject_init_neither EDTObject_init_from_kthread split: option.splits)
  next
    case (Some a)
    then show ?thesis by (simp add: EDTObject_init_from_irq split: option.splits)
  qed
  show ?thesis using 1 2 3 4 by simp
qed

text \<open>
  Claim C7 as stated fails: an IRQ that refers to a kernel thread and to a PCI device
  is accepted although that kernel thread refers to no IRQ at all.
\<close>

theorem EDTObject_init_one_way_counterexample:
  "irq_obj (kthreads demo_one_way 0) = None
   \<and> kthread (irqs demo_one_way 0) = Some 0
   \<and> fst (EDTObject_init (Some 0) None demo_one_way)
       = Inr \<lparr>edt_irq = 0, edt_kthread = 0, edt_pci_device = demo_dev\<rparr>"
  by (simp add: EDTObject_init_from_irq demo_one_way_def upd_irq_def demo_world_def
      blank_IRQ_def blank_KThread_def)

section \<open>Verification: the composite bind\<close>

lemma bind_to_cset_wrong_length:
  assumes "length (cpu_list cs) \<noteq> 1"
  shows "bind_to_cset E self cs prio w = (Inl AssertionError, w)"
proof (cases "list_to_range_notation (cpu_list cs)")
  case (Inl e)
  then have "e = AssertionError"
    by (auto simp: list_to_range_notation_def split: prod.splits if_splits)
  then show ?thesis using Inl by (simp add: bind_to_cset_def seq_def lift_def)
next
  case (Inr s)
  then show ?thesis using assms
    by (simp add: bind_to_cset_def seq_def lift_def raise_def Let_def)
qed

lemma bind_to_cset_off_node:
  assumes "cpu_list cs = [cpu]" and "0 \<le> cpu"
    and "py_nth (NUMA_CPULIST E) (best_node (irqs w (edt_irq self))) = Inr node"
    and "cpu \<notin> node"
  shows "bind_to_cset E self cs prio w =
           (Inl RuntimeError,
            w\<lparr>trace := trace w @
               [LogRecord CRITICAL ''EDTObj: use of favorite NUMA node required.'']\<rparr>)"
proof -
  obtain s where "list_to_range_notation (cpu_list cs) = Inr s"
    using assms(1,2) list_to_range_notation_total [of "cpu_list cs"] by auto
  then show ?thesis using assms
    by (simp add: bind_to_cset_def seq_def lift_def raise_def Let_def get_irq_def emit_def
        py_nth_def)
qed

lemma bind_to_cset_no_node:
  assumes "cpu_list cs = [cpu]" and "0 \<le> cpu"
    and "py_nth (NUMA_CPULIST E) (best_node (irqs w (edt_irq self))) = Inl e"
  shows "bind_to_cset E self cs prio w = (Inl e, w)"
proof -
  obtain s where "list_to_range_notation (cpu_list cs) = Inr s"
    using assms(1,2) list_to_range_notation_total [of "cpu_list cs"] by auto
  then show ?thesis using assms
    by (simp add: bind_to_cset_def seq_def lift_def raise_def Let_def get_irq_def py_nth_def)
qed

text \<open>
  Claim C6. A composite bind whose CPUSpec does not name exactly one CPU fails with an
  assertion error and leaves the world as it was: nothing is written, no tool is
  called, no entity changes. With exactly one CPU that is not in the CPU set of the
  IRQ's preferred NUMA node, it fails with a runtime error after logging one critical
  record, and again the kernel and the entities are untouched and no write or tool
  call is in the trace. When the preferred node is not an index of the NUMA table at
  all, the lookup raises and the world is as it was.
\<close>

theorem bind_to_cset_rejects_before_pinning:
  "(length (cpu_list cs) \<noteq> 1 \<longrightarrow>
      bind_to_cset E self cs prio w = (Inl AssertionError, w))
   \<and> (cpu_list cs = [cpu] \<and> 0 \<le> cpu
        \<and> py_nth (NUMA_CPULIST E) (best_node (irqs w (edt_irq self))) = Inr node
        \<and> cpu \<notin> node \<longrightarrow>
      bind_to_cset E self cs prio w =
        (Inl RuntimeError,
         w\<lparr>trace := trace w @
            [LogRecord CRITICAL ''EDTObj: use of favorite NUMA node required.'']\<rparr>))
   \<and> (cpu_list cs = [cpu] \<and> 0 \<le> cpu
        \<and> py_nth (NUMA_CPULIST E) (best_node (irqs w (edt_irq self))) = Inl e \<longrightarrow>
      bind_to_cset E self cs prio w = (Inl e, w))"
  using bind_to_cset_wrong_length bind_to_cset_off_node bind_to_cset_no_node by blast

theorem bind_to_cset_rejects_before_pinning_witness:
  "fst (bind_to_cset demo_env demo_edt (demo_cset [1, 2]) (Some 50) demo_one_way)
     = Inl AssertionError
   \<and> trace (snd (bind_to_cset demo_env demo_edt (demo_cset [1, 2]) (Some 50) demo_one_way)) = []
   \<and> fst (bind_to_cset demo_env demo_edt (demo_cset [9]) (Some 50) demo_one_way)
     = Inl RuntimeError
   \<and> trace (snd (bind_to_cset demo_env demo_edt (demo_cset [9]) (Some 50) demo_one_way))
     = [LogRecord CRITICAL ''EDTObj: use of favorite NUMA node required.'']
   \<and> kern (snd (bind_to_cset demo_env demo_edt (demo_cset [9]) (Some 50) demo_one_way))
     = demo_files"
proof -
  have a: "bind_to_cset demo_env demo_edt (demo_cset [1, 2]) (Some 50) demo_one_way
         = (Inl AssertionError, demo_one_way)"
    using bind_to_cset_rejects_before_pinning
      [where cs = "demo_cset [1, 2]" and E = demo_env and self = demo_edt and prio = "Some 50"
         and w = demo_one_way]
    by (simp add: demo_cset_def)
  have n: "py_nth (NUMA_CPULIST demo_env) (best_node (irqs demo_one_way (edt_irq demo_edt)))
         = Inr {0, 1, 2, 3}"
    by (simp add: demo_env_def demo_one_way_def demo_edt_def upd_irq_def py_nth_def)
  have b: "bind_to_cset demo_env demo_edt (demo_cset [9]) (Some 50) demo_one_way
         = (Inl RuntimeError,
            demo_one_way\<lparr>trace := trace demo_one_way @
              [LogRecord CRITICAL ''EDTObj: use of favorite NUMA node required.'']\<rparr>)"
    using bind_to_cset_rejects_before_pinning
      [where cs = "demo_cset [9]" and cpu = 9 and E = demo_env and self = demo_edt
         and prio = "Some 50" and w = demo_one_way and node = "{0, 1, 2, 3}"] n
    by (simp add: demo_cset_def)
  have t: "trace demo_one_way = []" "kern demo_one_way = demo_files"
    by (simp_all add: demo_one_way_def upd_irq_def demo_world_def)
  show ?thesis using a b t by simp
qed

section \<open>Verification: liveness and success flags over time\<close>

lemma inv_snd: "inv P m \<Longrightarrow> P w \<Longrightarrow> P (snd (m w))"
  unfolding inv_def by (metis prod.collapse)

lemma evolves_run_call:
  "\<forall>as. c \<noteq> CallResetPinned as \<Longrightarrow> evolves w0 w \<Longrightarrow> evolves w0 (run_call E c w)"
proof (cases c)
  case (Outside f)
  then show "evolves w0 w \<Longrightarrow> ?thesis" by (simp add: evolves_kern)
qed (simp_all add: inv_snd ev_alive ev_get_taskset ev_KThread_refresh_contents ev_pin_taskset
      ev_pin_cset ev_chrt_ff ev_chrt_oth ev_register_interrupt ev_IRQ_refresh_contents
      ev_get_pin_to_cpu ev_set_pin_to_cpu ev_update_counts ev_update_from_proc_interrupts
      ev_match_irq_and_pci ev_match_kthread_and_irq ev_EDTObject_init ev_bind_to_cset)

lemma evolves_outside_refl: "evolves_outside S w w"
  by (simp add: evolves_outside_def)

lemma evolves_outside_step:
  "evolves_outside S w0 w \<Longrightarrow> evolves w w' \<Longrightarrow> evolves_outside S w0 w'"
  by (simp add: evolves_outside_def evolves_def)

lemma reset_pinned_outside:
  "set as \<subseteq> S \<Longrightarrow> inv (evolves_outside S w0) (reset_pinned as)"
proof (induction as)
  case Nil
  show ?case by (simp add: inv_ret)
next
  case (Cons a as)
  have "inv (evolves_outside S w0)
          (upd_irq a (\<lambda>irq. irq\<lparr>was_pinned_successfully_once := False\<rparr>))"
    using Cons.prems by (intro inv_upd_irq) (auto simp: evolves_outside_def)
  then show ?case using Cons by (auto intro!: inv_seq)
qed



lemma evolves_outside_run_call:
  assumes "evolves_outside S w0 w" and "resets c \<subseteq> S"
  shows "evolves_outside S w0 (run_call E c w)"
proof (cases "\<exists>as. c = CallResetPinned as")
  case True
  then obtain as where c: "c = CallResetPinned as" by blast
  then have "set as \<subseteq> S" using assms(2) by simp
  then show ?thesis
    using inv_snd [where P = "evolves_outside S w0" and m = "reset_pinned as" and w = w]
      reset_pinned_outside [of as S w0] assms(1) c
    by simp
next
  case False
  then have "evolves w (run_call E c w)"
    by (intro evolves_run_call) (simp_all add: evolves_refl)
  then show ?thesis using assms(1) by (rule evolves_outside_step [rotated])
qed

lemma evolves_outside_run_calls:
  "evolves_outside S w0 w \<Longrightarrow> (\<Union>c \<in> set cs. resets c) \<subseteq> S \<Longrightarrow>
   evolves_outside S w0 (run_calls E cs w)"
  by (induction cs arbitrary: w) (simp_all add: evolves_outside_run_call)

lemma alive_False_flag: "alive E t w = (Inr False, w1) \<Longrightarrow> \<not> alive_flag (kthreads w1 t)"
  by (auto simp: alive_def seq_def get_kt_def ret_def raise_def kcall_def emit_def upd_kt_def
      split: if_splits prod.splits option.splits)

lemma alive_dead: "\<not> alive_flag (kthreads w t) \<Longrightarrow> alive E t w = (Inr False, w)"
  by (simp add: alive_def seq_def get_kt_def ret_def)

lemma get_taskset_marks_dead:
  "k_sched_getaffinity E (pid (kthreads w t)) (kern w) = (Inl ProcessLookupError, k') \<Longrightarrow>
   \<not> alive_flag (kthreads (snd (get_taskset E t w)) t)"
  by (simp add: get_taskset_def seq_def get_kt_def kcall_def upd_kt_def ret_def lift_def
      split: sum.splits)

text \<open>
  Claim C9. Once \<^verbatim>\<open>alive\<close> has returned \<open>False\<close> for a kernel thread, then after any
  sequence of operations and of changes in the kernel, \<^verbatim>\<open>alive\<close> returns \<open>False\<close> again
  and leaves the world as it is: the kernel is not asked. The same holds once
  \<^verbatim>\<open>get_taskset\<close> has found the process gone.
\<close>

theorem alive_never_again:
  "(alive E t w = (Inr False, w1) \<longrightarrow>
      alive E t (run_calls E cs w1) = (Inr False, run_calls E cs w1))
   \<and> (k_sched_getaffinity E (pid (kthreads w t)) (kern w) = (Inl ProcessLookupError, k') \<longrightarrow>
      alive E t (run_calls E cs (snd (get_taskset E t w)))
        = (Inr False, run_calls E cs (snd (get_taskset E t w))))"
proof (intro conjI impI)
  assume "alive E t w = (Inr False, w1)"
  then have "\<not> alive_flag (kthreads w1 t)" by (rule alive_False_flag)
  moreover have "evolves_outside UNIV w1 (run_calls E cs w1)"
    by (simp add: evolves_outside_run_calls evolves_outside_refl)
  ultimately have "\<not> alive_flag (kthreads (run_calls E cs w1) t)"
    by (simp add: evolves_outside_def)
  then show "alive E t (run_calls E cs w1) = (Inr False, run_calls E cs w1)" by (rule alive_dead)
next
  let ?w1 = "snd (get_taskset E t w)"
  assume "k_sched_getaffinity E (pid (kthreads w t)) (kern w) = (Inl ProcessLookupError, k')"
  then have "\<not> alive_flag (kthreads ?w1 t)" by (rule get_taskset_marks_dead)
  moreover have "evolves_outside UNIV ?w1 (run_calls E cs ?w1)"
    by (simp add: evolves_outside_run_calls evolves_outside_refl)
  ultimately have "\<not> alive_flag (kthreads (run_calls E cs ?w1) t)"
    by (simp add: evolves_outside_def)
  then show "alive E t (run_calls E cs ?w1) = (Inr False, run_calls E cs ?w1)" by (rule alive_dead)
qed


theorem alive_never_again_witness:
  "fst (alive demo_dead_env 0 demo_thread) = Inr False
   \<and> fst (k_kill0 demo_dead_env 77
            (kern (run_calls demo_dead_env [pid_reused] (snd (alive demo_dead_env 0 demo_thread)))))
       = None
   \<and> fst (alive demo_dead_env 0
            (run_calls demo_dead_env [pid_reused] (snd (alive demo_dead_env 0 demo_thread))))
       = Inr False
   \<and> fst (alive demo_dead_env 0
            (run_calls demo_dead_env [pid_reused] (snd (get_taskset demo_dead_env 0 demo_thread))))
       = Inr False"
proof -
  have a: "fst (alive demo_dead_env 0 demo_thread) = Inr False" by code_simp
  then have h: "alive demo_dead_env 0 demo_thread
              = (Inr False, snd (alive demo_dead_env 0 demo_thread))"
    by (metis prod.collapse)
  have k: "fst (k_kill0 demo_dead_env 77
            (kern (run_calls demo_dead_env [pid_reused] (snd (alive demo_dead_env 0 demo_thread)))))
       = None"
    by code_simp
  have g: "k_sched_getaffinity demo_dead_env (pid (kthreads demo_thread 0)) (kern demo_thread)
         = (Inl ProcessLookupError, demo_files)"
    by (simp add: demo_dead_env_def demo_env_def demo_thread_def upd_kt_def demo_world_def
        demo_files_def)
  show ?thesis
    using a k h g
      alive_never_again [where E = demo_dead_env and t = 0 and w = demo_thread
        and ?w1.0 = "snd (alive demo_dead_env 0 demo_thread)" and cs = "[pid_reused]"
        and k' = demo_files]
    by simp
qed
















section \<open>Verification: the effective target of an IRQ pin\<close>

lemma trace_grows: "inv (evolves w) m \<Longrightarrow> \<exists>es. trace (snd (m w)) = trace w @ es"
  using inv_snd [of "evolves w" m w] by (simp add: evolves_refl evolves_def)

lemma ev_write_tail:
  "inv (evolves w0)
     (seq (kcall (k_write E file content)) (\<lambda>r.
        case r of
          Some e \<Rightarrow> raise e
        | None \<Rightarrow> if int (length content) \<le> 0 then raise ProcfsWriteError else ret ()))"
  by (intro ev_rules)

lemma ev_pin_handler:
  "inv (evolves w0)
     (seq (upd_irq a (\<lambda>self. self\<lparr>smp_affinity_list := sort (smp_affinity_list self)\<rparr>)) (\<lambda>_.
      seq (get_irq a) (\<lambda>self.
      seq (lift (list_to_range_notation (smp_affinity_list self))) (\<lambda>_.
      seq (lift (list_to_range_notation L)) (\<lambda>_. ret ())))))"
  by (intro ev_rules) simp_all

lemma pin_write_trace:
  assumes "uid E = 0" and "list_to_range_notation eff = Inr s"
  shows "\<exists>rest. trace (snd (pin_write E a L eff w))
           = trace w @ ProcfsWrite (procfs_folder (irqs w a) @ ''/smp_affinity_list'') s # rest"
proof -
  let ?file = "procfs_folder (irqs w a) @ ''/smp_affinity_list''"
  let ?tail = "seq (kcall (k_write E ?file s)) (\<lambda>r.
        case r of
          Some e \<Rightarrow> raise e
        | None \<Rightarrow> if int (length s) \<le> 0 then raise ProcfsWriteError else ret ())"
  let ?h = "seq (upd_irq a (\<lambda>self. self\<lparr>smp_affinity_list := sort (smp_affinity_list self)\<rparr>)) (\<lambda>_.
      seq (get_irq a) (\<lambda>self.
      seq (lift (list_to_range_notation (smp_affinity_list self))) (\<lambda>_.
      seq (lift (list_to_range_notation L)) (\<lambda>_. ret ()))))"
  let ?w1 = "w\<lparr>trace := trace w @ [ProcfsWrite ?file s]\<rparr>"
  have m: "seq (lift (list_to_range_notation eff)) (\<lambda>content.
             IRQ_procfs_write E a ''smp_affinity_list'' content) w = ?tail ?w1"
    using assms
    by (simp add: seq_def lift_def IRQ_procfs_write_def tl_procfs_write_def root_decorator_def
        get_irq_def emit_def)
  obtain es where es: "trace (snd (?tail ?w1)) = trace ?w1 @ es"
    using trace_grows [OF ev_write_tail] by blast
  obtain r1 w2 where t: "?tail ?w1 = (r1, w2)" by (cases "?tail ?w1")
  have tr2: "trace w2 = trace w @ ProcfsWrite ?file s # es" using es t by simp
  obtain es' where es': "trace (snd (?h w2)) = trace w2 @ es'"
    using trace_grows [OF ev_pin_handler] by blast
  have "pin_write E a L eff w = (case r1 of Inl e \<Rightarrow> if is_OSError e then ?h w2 else (Inl e, w2)
                                | Inr x \<Rightarrow> (Inr x, w2))"
    using m t by (simp add: pin_write_def catch_OSError_def)
  then have "trace (snd (pin_write E a L eff w)) = trace w2 \<or>
             trace (snd (pin_write E a L eff w)) = trace w2 @ es'"
    using es' by (cases r1) auto
  then show ?thesis using tr2 by auto
qed

lemma set_pin_to_cpu_trace:
  assumes root: "uid E = 0" and ne: "cpu_list_arg \<noteq> []" and nn: "\<forall>c \<in> set cpu_list_arg. 0 \<le> c"
    and tgt: "pin_target E (irqs w a) (sort cpu_list_arg) b w = (Inr eff, wt)"
    and folder: "procfs_folder (irqs wt a) = procfs_folder (irqs w a)"
    and s: "list_to_range_notation eff = Inr s"
  shows "\<exists>rest. trace (snd (set_pin_to_cpu E a cpu_list_arg b w))
           = trace wt @ ProcfsWrite (procfs_folder (irqs w a) @ ''/smp_affinity_list'') s # rest"
proof -
  let ?L = "sort cpu_list_arg"
  obtain s0 where s0: "list_to_range_notation cpu_list_arg = Inr s0"
    using nn list_to_range_notation_total by blast
  have len: "length ?L > 0" using ne by simp
  have unfold: "set_pin_to_cpu E a cpu_list_arg b w
              = seq (pin_write E a ?L eff) (\<lambda>_. pin_verify E a eff) wt"
    using root s0 len tgt
    by (simp add: set_pin_to_cpu_def root_decorator_def seq_def lift_def get_irq_def)
  obtain rest1 where r1: "trace (snd (pin_write E a ?L eff wt))
           = trace wt @ ProcfsWrite (procfs_folder (irqs w a) @ ''/smp_affinity_list'') s # rest1"
    using pin_write_trace [OF root s, of a ?L wt] folder by auto
  obtain rw w2 where pw: "pin_write E a ?L eff wt = (rw, w2)" by (cases "pin_write E a ?L eff wt")
  obtain es where es: "trace (snd (pin_verify E a eff w2)) = trace w2 @ es"
    using trace_grows [OF ev_pin_verify] by blast
  have "trace (snd (set_pin_to_cpu E a cpu_list_arg b w)) = trace w2
      \<or> trace (snd (set_pin_to_cpu E a cpu_list_arg b w)) = trace w2 @ es"
    using unfold pw es by (cases rw) (auto simp: seq_def split: prod.splits)
  then show ?thesis using r1 pw by auto
qed

text \<open>
  Claim C3. Run as root on an IRQ whose preferred NUMA node is an entry of the NUMA
  table, with a non-empty list of CPU numbers that is not contained in that node's CPU
  set (the list is sorted by the first log line, as the caller's own list is): with
  relaxation the effective target is the sorted list restricted to the node's set,
  whose members are exactly the common CPUs; without relaxation it is the sorted list
  itself, and a policy violation is logged as an error first. In both cases the range
  notation of the effective target is what is written to \<open>smp_affinity_list\<close>.
\<close>

theorem set_pin_to_cpu_numa_target:
  assumes "uid E = 0" and "cpu_list_arg \<noteq> []" and "\<forall>c \<in> set cpu_list_arg. 0 \<le> c"
    and "0 \<le> best_node (irqs w a)"
    and "py_nth (NUMA_CPULIST E) (best_node (irqs w a)) = Inr node"
    and "\<not> set cpu_list_arg \<subseteq> node"
  shows "pin_target E (irqs w a) (sort cpu_list_arg) True w
           = (Inr (filter (\<lambda>c. c \<in> node) (sort cpu_list_arg)), w)
       \<and> set (filter (\<lambda>c. c \<in> node) (sort cpu_list_arg)) = set cpu_list_arg \<inter> node
       \<and> (\<exists>s rest. list_to_range_notation (filter (\<lambda>c. c \<in> node) (sort cpu_list_arg)) = Inr s
            \<and> trace (snd (set_pin_to_cpu E a cpu_list_arg True w))
                = trace w @ ProcfsWrite (procfs_folder (irqs w a) @ ''/smp_affinity_list'') s # rest)
       \<and> pin_target E (irqs w a) (sort cpu_list_arg) False w
           = (Inr (sort cpu_list_arg),
              w\<lparr>trace := trace w @
                 [LogRecord ERROR ''IRQ::set_pin_to_cpu: pinning not on NUMA node'']\<rparr>)
       \<and> (\<exists>s rest. list_to_range_notation (sort cpu_list_arg) = Inr s
            \<and> trace (snd (set_pin_to_cpu E a cpu_list_arg False w))
                = trace w @ LogRecord ERROR ''IRQ::set_pin_to_cpu: pinning not on NUMA node''
                    # ProcfsWrite (procfs_folder (irqs w a) @ ''/smp_affinity_list'') s # rest)"
proof -
  let ?L = "sort cpu_list_arg"
  let ?F = "filter (\<lambda>c. c \<in> node) ?L"
  let ?wl = "w\<lparr>trace := trace w @
                 [LogRecord ERROR ''IRQ::set_pin_to_cpu: pinning not on NUMA node'']\<rparr>"
  have nsub: "\<not> set ?L \<subseteq> node" using assms(6) by simp
  obtain sL where sL: "list_to_range_notation ?L = Inr sL"
    using assms(3) list_to_range_notation_total [of ?L] by auto
  obtain sF where sF: "list_to_range_notation ?F = Inr sF"
    using assms(3) list_to_range_notation_total [of ?F] by auto
  have t1: "pin_target E (irqs w a) ?L True w = (Inr ?F, w)"
    using assms(4,5) nsub by (simp add: pin_target_def seq_def lift_def ret_def)
  have t2: "pin_target E (irqs w a) ?L False w = (Inr ?L, ?wl)"
    using assms(4,5) nsub sL by (simp add: pin_target_def seq_def lift_def ret_def emit_def)
  have st: "set ?F = set cpu_list_arg \<inter> node" by auto
  obtain rest1 where r1: "trace (snd (set_pin_to_cpu E a cpu_list_arg True w))
           = trace w @ ProcfsWrite (procfs_folder (irqs w a) @ ''/smp_affinity_list'') sF # rest1"
    using set_pin_to_cpu_trace [OF assms(1,2,3) t1 _ sF] by auto
  obtain rest2 where r2: "trace (snd (set_pin_to_cpu E a cpu_list_arg False w))
           = trace ?wl @ ProcfsWrite (procfs_folder (irqs w a) @ ''/smp_affinity_list'') sL # rest2"
    using set_pin_to_cpu_trace [OF assms(1,2,3) t2 _ sL] by auto
  show ?thesis using t1 t2 st sF sL r1 r2 by simp
qed

theorem set_pin_to_cpu_numa_target_witness:
  "fst (pin_target demo_env (irqs demo_numa 0) [1, 2, 9] True demo_numa) = Inr [1, 2]
   \<and> fst (pin_target demo_env (irqs demo_numa 0) [1, 2, 9] False demo_numa) = Inr [1, 2, 9]
   \<and> take 1 (trace (snd (set_pin_to_cpu demo_env 0 [1, 2, 9] True demo_numa)))
       = [ProcfsWrite ''/proc/irq/5/smp_affinity_list'' ''1-2'']
   \<and> take 2 (trace (snd (set_pin_to_cpu demo_env 0 [1, 2, 9] False demo_numa)))
       = [LogRecord ERROR ''IRQ::set_pin_to_cpu: pinning not on NUMA node'',
          ProcfsWrite ''/proc/irq/5/smp_affinity_list'' ''1-2,9'']"
proof -
  have h: "uid demo_env = 0" "[1, 2, 9 :: int] \<noteq> []" "\<forall>c \<in> set [1, 2, 9 :: int]. 0 \<le> c"
    "0 \<le> best_node (irqs demo_numa 0)"
    "py_nth (NUMA_CPULIST demo_env) (best_node (irqs demo_numa 0)) = Inr {0, 1, 2, 3}"
    "\<not> set [1, 2, 9 :: int] \<subseteq> {0, 1, 2, 3}"
    by (simp_all add: demo_env_def demo_numa_def py_nth_def)
  have f: "procfs_folder (irqs demo_numa 0) = ''/proc/irq/5''" "trace demo_numa = []"
    by (simp_all add: demo_numa_def demo_world_def)
  have l: "list_to_range_notation [1, 2] = Inr ''1-2''"
    "list_to_range_notation [1, 2, 9] = Inr ''1-2,9''"
    by code_simp+
  show ?thesis
    using set_pin_to_cpu_numa_target [OF h] f l by auto
qed

end
